theory Spec2Isabelle
  imports Main
begin

section \<open>Go channels\<close>

text \<open>
  A Go operation on a channel either proceeds, blocks the goroutine that runs it, or
  panics. A blocked operation changes nothing; the goroutine retries when it is scheduled
  again.
\<close>

datatype 'a res = Ok 'a | Blocked | Panic string

text \<open>
  A channel made by \<^verbatim>\<open>make(chan T, n)\<close>: the buffered elements (oldest first), the
  capacity \<open>n\<close> and whether \<^verbatim>\<open>close\<close> has been called on it.
\<close>

record 'a chan =
  ch_buf :: "'a list"
  ch_cap :: nat
  ch_closed :: bool

definition make_chan :: "nat \<Rightarrow> 'a chan" where
  "make_chan n = \<lparr>ch_buf = [], ch_cap = n, ch_closed = False\<rparr>"

text \<open>\<^verbatim>\<open>ch <- x\<close>: panics on a closed channel, blocks while the buffer is full.\<close>

definition chan_send :: "'a \<Rightarrow> 'a chan \<Rightarrow> 'a chan res" where
  "chan_send x c =
     (if ch_closed c then Panic ''send on closed channel''
      else if length (ch_buf c) < ch_cap c then Ok (c\<lparr>ch_buf := ch_buf c @ [x]\<rparr>)
      else Blocked)"

text \<open>
  \<^verbatim>\<open><-ch\<close>: takes the oldest buffered element; on an empty channel it blocks, unless the
  channel is closed, where it yields the zero value (\<open>None\<close>) at once.
\<close>

definition chan_recv :: "'a chan \<Rightarrow> ('a option \<times> 'a chan) res" where
  "chan_recv c =
     (case ch_buf c of
        x # xs \<Rightarrow> Ok (Some x, c\<lparr>ch_buf := xs\<rparr>)
      | [] \<Rightarrow> if ch_closed c then Ok (None, c) else Blocked)"

text \<open>\<^verbatim>\<open>close(ch)\<close>: panics when the channel is closed already.\<close>

definition chan_close :: "'a chan \<Rightarrow> 'a chan res" where
  "chan_close c =
     (if ch_closed c then Panic ''close of closed channel''
      else Ok (c\<lparr>ch_closed := True\<rparr>))"

definition can_recv :: "'a chan \<Rightarrow> bool" where
  "can_recv c = (case chan_recv c of Ok r \<Rightarrow> True | Blocked \<Rightarrow> False | Panic x \<Rightarrow> False)"

section \<open>The Kafka sink (pkg/sinks/kafka\_sink.go)\<close>

datatype error = UnknownSink string | Failure string

text \<open>The four worker goroutines, in the order \<^verbatim>\<open>run\<close> starts them.\<close>

datatype kind = Group | Offset | GroupRate | TopicRate

datatype chan_id = Metric kind | SinkStop | SourceStop

record ProducerMessage =
  Topic :: string
  Value :: string

text \<open>
  What the program does that is visible outside its memory, in the order it happens: log
  lines, calls of the producer, channel closes, and the calls \<^verbatim>\<open>main\<close> makes on the
  source. \<open>EvEnqueue k b\<close> is a completed send of batch \<open>b\<close> into the channel of kind
  \<open>k\<close>; \<open>EvDone k\<close> is the deferred \<^verbatim>\<open>wg.Done()\<close> of worker \<open>k\<close>.
\<close>

datatype 'm event =
    LogError error
  | LogInfo string
  | EvSendMessage ProducerMessage
  | EvDone kind
  | EvClose chan_id
  | EvProducerClose
  | EvEnqueue kind "'m list"
  | EvNewKafkaSource
  | EvSourceRun
  | EvSignal string
  | EvSourceWait
  | EvSinkWait
  | EvSourceClose

text \<open>The struct \<^verbatim>\<open>KafkaSink\<close>. The producer is the state \<open>'p\<close> of the sarama client.\<close>

record ('m, 'p) KafkaSink =
  offsetChan :: "'m list chan"
  groupChan :: "'m list chan"
  topicRateChan :: "'m list chan"
  groupRateChan :: "'m list chan"
  stopCh :: "unit chan"
  producer :: 'p
  topic :: string
  wg :: int

datatype wstatus = NotStarted | Running | Exited

text \<open>
  The sink together with what is not a field of the struct: the state of each worker
  goroutine and the events so far.
\<close>

record ('m, 'p) world = "('m, 'p) KafkaSink" +
  workers :: "kind \<Rightarrow> wstatus"
  events :: "'m event list"

text \<open>
  The libraries the sink calls: \<^verbatim>\<open>json.Marshal\<close>, and \<^verbatim>\<open>SendMessage\<close> and
  \<^verbatim>\<open>Close\<close> of the sarama producer. Each may fail; the producer calls may change the
  producer.
\<close>

record ('m, 'p) env =
  Marshal :: "'m \<Rightarrow> error + string"
  SendMessage :: "'p \<Rightarrow> ProducerMessage \<Rightarrow> error option \<times> 'p"
  ProducerClose :: "'p \<Rightarrow> error option \<times> 'p"

text \<open>The channel a worker of kind \<open>k\<close> receives from.\<close>

fun chan_of :: "kind \<Rightarrow> ('m, 'p) world \<Rightarrow> 'm list chan" where
  "chan_of Group w = groupChan w"
| "chan_of Offset w = offsetChan w"
| "chan_of GroupRate w = groupRateChan w"
| "chan_of TopicRate w = topicRateChan w"

fun set_chan :: "kind \<Rightarrow> 'm list chan \<Rightarrow> ('m, 'p) world \<Rightarrow> ('m, 'p) world" where
  "set_chan Group c w = w\<lparr>groupChan := c\<rparr>"
| "set_chan Offset c w = w\<lparr>offsetChan := c\<rparr>"
| "set_chan GroupRate c w = w\<lparr>groupRateChan := c\<rparr>"
| "set_chan TopicRate c w = w\<lparr>topicRateChan := c\<rparr>"

text \<open>The body of \<^verbatim>\<open>for _, metric := range metrics\<close> for one metric (lines 93 to 104).\<close>

definition export_metric ::
  "('m, 'p) env \<Rightarrow> string \<Rightarrow> 'm \<Rightarrow> 'p \<times> 'm event list \<Rightarrow> 'p \<times> 'm event list" where
  "export_metric E tp metric st =
     (case st of (p, evs) \<Rightarrow>
        (case Marshal E metric of
           Inl err \<Rightarrow> (p, evs @ [LogError err])
         | Inr b \<Rightarrow>
             (case SendMessage E p \<lparr>Topic = tp, Value = b\<rparr> of
                (Some err, p') \<Rightarrow>
                  (p', evs @ [EvSendMessage \<lparr>Topic = tp, Value = b\<rparr>, LogError err])
              | (None, p') \<Rightarrow> (p', evs @ [EvSendMessage \<lparr>Topic = tp, Value = b\<rparr>]))))"

fun range_metrics ::
  "('m, 'p) env \<Rightarrow> string \<Rightarrow> 'm list \<Rightarrow> 'p \<times> 'm event list \<Rightarrow> 'p \<times> 'm event list" where
  "range_metrics E tp [] st = st"
| "range_metrics E tp (metric # metrics) st =
     range_metrics E tp metrics (export_metric E tp metric st)"

text \<open>The log line of each worker when it takes the stop case.\<close>

fun stop_msg :: "kind \<Rightarrow> string" where
  "stop_msg Group = ''Kafka ConsumerGroupOffsetMetrics Stoped''"
| "stop_msg Offset = ''Kafka OffsetMetrics Stoped''"
| "stop_msg GroupRate = ''Kafka GroupRateChan Stoped''"
| "stop_msg TopicRate = ''Kafka TopicRateChan Stoped''"

text \<open>\<^verbatim>\<open>wg.Done()\<close>: panics when the counter would become negative.\<close>

definition wg_Done :: "('m, 'p) world \<Rightarrow> ('m, 'p) world res" where
  "wg_Done w =
     (if wg w - 1 < 0 then Panic ''sync: negative WaitGroup counter''
      else Ok (w\<lparr>wg := wg w - 1\<rparr>))"

text \<open>
  The two cases of the \<^verbatim>\<open>select\<close> of a worker. Receiving from a closed metric channel
  yields a nil slice, over which the \<^verbatim>\<open>range\<close> loop does nothing.
\<close>

datatype select_case = CaseMetrics | CaseStop

definition case_metrics ::
  "('m, 'p) env \<Rightarrow> kind \<Rightarrow> ('m, 'p) world \<Rightarrow> ('m, 'p) world res" where
  "case_metrics E k w =
     (case chan_recv (chan_of k w) of
        Ok (v, c) \<Rightarrow>
          (case range_metrics E (topic w) (case v of None \<Rightarrow> [] | Some metrics \<Rightarrow> metrics)
                  (producer w, events w) of
             (p, evs) \<Rightarrow> Ok ((set_chan k c w)\<lparr>producer := p, events := evs\<rparr>))
      | Blocked \<Rightarrow> Blocked
      | Panic x \<Rightarrow> Panic x)"

definition case_stop :: "kind \<Rightarrow> ('m, 'p) world \<Rightarrow> ('m, 'p) world res" where
  "case_stop k w =
     (case chan_recv (stopCh w) of
        Ok (v, c) \<Rightarrow>
          (case wg_Done (w\<lparr>stopCh := c, events := events w @ [LogInfo (stop_msg k)]\<rparr>) of
             Ok w' \<Rightarrow>
               Ok (w'\<lparr>workers := (workers w')(k := Exited), events := events w' @ [EvDone k]\<rparr>)
           | Blocked \<Rightarrow> Blocked
           | Panic x \<Rightarrow> Panic x)
      | Blocked \<Rightarrow> Blocked
      | Panic x \<Rightarrow> Panic x)"

text \<open>
  One iteration of the loop \<^verbatim>\<open>for { select { ... } }\<close> of worker \<open>k\<close>. Go's
  \<^verbatim>\<open>select\<close> blocks while no case can proceed, takes the only case that can, and chooses
  at random when both can: \<open>pick\<close> is that choice. The batch received is exported
  before the goroutine selects again, so one iteration is one step. The events of the
  step stand where the export begins: what a schedule places after the step may, in the
  process, happen while a call of \<^verbatim>\<open>SendMessage\<close> of that export has not returned.
\<close>

definition worker_select ::
  "('m, 'p) env \<Rightarrow> kind \<Rightarrow> select_case \<Rightarrow> ('m, 'p) world \<Rightarrow> ('m, 'p) world res" where
  "worker_select E k pick w =
     (if workers w k \<noteq> Running then Blocked
      else if can_recv (chan_of k w) \<and> can_recv (stopCh w)
        then (case pick of CaseMetrics \<Rightarrow> case_metrics E k w | CaseStop \<Rightarrow> case_stop k w)
      else if can_recv (chan_of k w) then case_metrics E k w
      else if can_recv (stopCh w) then case_stop k w
      else Blocked)"

text \<open>\<^verbatim>\<open>sink.wg.Add(1); go func(s *KafkaSink) {...}(sink)\<close>, and \<^verbatim>\<open>run\<close>, which does it four times.\<close>

definition go_worker :: "kind \<Rightarrow> ('m, 'p) world \<Rightarrow> ('m, 'p) world" where
  "go_worker k w = w\<lparr>wg := wg w + 1, workers := (workers w)(k := Running)\<rparr>"

definition run :: "('m, 'p) world \<Rightarrow> ('m, 'p) world" where
  "run w = go_worker TopicRate (go_worker GroupRate (go_worker Offset (go_worker Group w)))"

text \<open>
  Lines 213 to 230 of \<^verbatim>\<open>NewKafkaSink\<close>: the four channels of capacity 1024, the
  unbuffered stop channel, the struct, and \<^verbatim>\<open>sink.run()\<close>.
\<close>

definition new_sink :: "'p \<Rightarrow> string \<Rightarrow> ('m, 'p) world" where
  "new_sink p kafkaSinkTopic =
     run \<lparr>offsetChan = make_chan 1024, groupChan = make_chan 1024,
          topicRateChan = make_chan 1024, groupRateChan = make_chan 1024,
          stopCh = make_chan 0, producer = p, topic = kafkaSinkTopic, wg = 0,
          workers = (\<lambda>k. NotStarted), events = []\<rparr>"

text \<open>
  \<^verbatim>\<open>NewKafkaSink\<close>. The arguments are what the outside returns: the error of
  \<^verbatim>\<open>util.GetTLSConfiguration\<close>, the result of \<^verbatim>\<open>sarama.NewSyncProducer\<close> and the flag
  \<^verbatim>\<open>kafka-sink-topic\<close>.
\<close>

definition NewKafkaSink ::
  "error option \<Rightarrow> error + 'p \<Rightarrow> string \<Rightarrow> error + ('m, 'p) world" where
  "NewKafkaSink tls new_producer kafkaSinkTopic =
     (case tls of
        Some err \<Rightarrow> Inl err
      | None \<Rightarrow>
          (case new_producer of
             Inl err \<Rightarrow> Inl err
           | Inr p \<Rightarrow> Inr (new_sink p kafkaSinkTopic)))"

section \<open>Interleavings\<close>

text \<open>
  What the goroutines other than the caller do, one step at a time: a worker runs one
  iteration of its loop, or the source sends a batch into a channel of the sink.

  A send into a channel with room puts the batch into the buffer. Go hands a batch that
  is sent while the receiving worker is parked in its \<^verbatim>\<open>select\<close> straight to that
  worker, which then exports it: this is the send followed by the receive step of that
  worker. The state does not record whether a worker is parked, so a schedule may also
  leave such a batch in the buffer; the schedules admitted are a superset of those of
  the process. What is proved of every schedule holds of the process; a run given as an
  example buffers a batch only while the worker is not parked: before it first reaches
  its \<^verbatim>\<open>select\<close>, or while it is exporting.
\<close>

datatype 'm action = Select kind select_case | Send kind "'m list"

definition engine_send :: "kind \<Rightarrow> 'm list \<Rightarrow> ('m, 'p) world \<Rightarrow> ('m, 'p) world res" where
  "engine_send k b w =
     (case chan_send b (chan_of k w) of
        Ok c \<Rightarrow> Ok ((set_chan k c w)\<lparr>events := events w @ [EvEnqueue k b]\<rparr>)
      | Blocked \<Rightarrow> Blocked
      | Panic x \<Rightarrow> Panic x)"

fun step :: "('m, 'p) env \<Rightarrow> 'm action \<Rightarrow> ('m, 'p) world \<Rightarrow> ('m, 'p) world res" where
  "step E (Select k pick) w = worker_select E k pick w"
| "step E (Send k b) w = engine_send k b w"

text \<open>A goroutine scheduled while it is blocked stays where it is.\<close>

fun exec :: "('m, 'p) env \<Rightarrow> 'm action list \<Rightarrow> ('m, 'p) world \<Rightarrow> ('m, 'p) world res" where
  "exec E [] w = Ok w"
| "exec E (a # sched) w =
     (case step E a w of
        Ok w' \<Rightarrow> exec E sched w'
      | Blocked \<Rightarrow> exec E sched w
      | Panic x \<Rightarrow> Panic x)"

section \<open>Close and Wait\<close>

definition close_metric :: "kind \<Rightarrow> ('m, 'p) world \<Rightarrow> ('m, 'p) world res" where
  "close_metric k w =
     (case chan_close (chan_of k w) of
        Ok c \<Rightarrow> Ok ((set_chan k c w)\<lparr>events := events w @ [EvClose (Metric k)]\<rparr>)
      | Blocked \<Rightarrow> Blocked
      | Panic x \<Rightarrow> Panic x)"

definition close_stopCh :: "('m, 'p) world \<Rightarrow> ('m, 'p) world res" where
  "close_stopCh w =
     (case chan_close (stopCh w) of
        Ok c \<Rightarrow> Ok (w\<lparr>stopCh := c, events := events w @ [EvClose SinkStop]\<rparr>)
      | Blocked \<Rightarrow> Blocked
      | Panic x \<Rightarrow> Panic x)"

text \<open>\<^verbatim>\<open>sink.wg.Wait()\<close> returns once the counter is zero.\<close>

definition wg_Wait :: "('m, 'p) world \<Rightarrow> ('m, 'p) world res" where
  "wg_Wait w = (if wg w = 0 then Ok w else Blocked)"

definition producer_Close ::
  "('m, 'p) env \<Rightarrow> ('m, 'p) world \<Rightarrow> (error option \<times> ('m, 'p) world) res" where
  "producer_Close E w =
     (case ProducerClose E (producer w) of
        (err, p) \<Rightarrow> Ok (err, w\<lparr>producer := p, events := events w @ [EvProducerClose]\<rparr>))"

definition seq :: "'a res \<Rightarrow> ('a \<Rightarrow> 'b res) \<Rightarrow> 'b res" where
  "seq m f = (case m of Ok x \<Rightarrow> f x | Blocked \<Rightarrow> Blocked | Panic x \<Rightarrow> Panic x)"

text \<open>
  \<^verbatim>\<open>Close\<close> (lines 66 to 78). \<open>sched\<close> is what the other goroutines do between
  \<^verbatim>\<open>close(sink.stopCh)\<close> and the return of \<^verbatim>\<open>sink.wg.Wait()\<close>; when a worker is still
  running at its end, \<^verbatim>\<open>Close\<close> has not returned within \<open>sched\<close> and the result is
  \<open>Blocked\<close>.
\<close>

definition Close ::
  "('m, 'p) env \<Rightarrow> 'm action list \<Rightarrow> ('m, 'p) world \<Rightarrow> (error option \<times> ('m, 'p) world) res" where
  "Close E sched w =
     seq (close_stopCh w) (\<lambda>w.
     seq (exec E sched w) (\<lambda>w.
     seq (wg_Wait w) (\<lambda>w.
     seq (close_metric Offset w) (\<lambda>w.
     seq (close_metric Group w) (\<lambda>w.
     seq (close_metric TopicRate w) (\<lambda>w.
     seq (close_metric GroupRate w) (\<lambda>w.
     producer_Close E w)))))))"

text \<open>\<^verbatim>\<open>Wait\<close> (lines 81 to 83): the body is empty.\<close>

definition Wait :: "('m, 'p) world \<Rightarrow> ('m, 'p) world res" where
  "Wait w = Ok w"

section \<open>The orchestrator (kafka-offset.go)\<close>

text \<open>
  Modelled from the spec: the sink registry and \<^verbatim>\<open>metrics.New\<close> of package
  \<^verbatim>\<open>pkg/metrics\<close>, which is not among the sources. Section 4.3: a mapping from sink
  name to a zero-argument constructor returning a sink or an error; the last registration
  of a name wins; a lookup that finds nothing fails with an "unknown sink" error; a
  constructor failure propagates unchanged. A constructor takes no argument, so the
  registry holds what it returns.
\<close>

type_synonym ('m, 'p) registry = "string \<rightharpoonup> error + ('m, 'p) world"

definition RegisterSink ::
  "string \<Rightarrow> error + ('m, 'p) world \<Rightarrow> ('m, 'p) registry \<Rightarrow> ('m, 'p) registry" where
  "RegisterSink name ctor reg = reg(name \<mapsto> ctor)"

definition metrics_New :: "('m, 'p) registry \<Rightarrow> string \<Rightarrow> error + ('m, 'p) world" where
  "metrics_New reg name =
     (case reg name of None \<Rightarrow> Inl (UnknownSink name) | Some ctor \<Rightarrow> ctor)"

text \<open>
  Modelled from the spec: the collection engine of \<^verbatim>\<open>pkg/metrics\<close>
  (\<^verbatim>\<open>NewKafkaSource\<close>, \<^verbatim>\<open>Run\<close>, \<^verbatim>\<open>Wait\<close>, \<^verbatim>\<open>Close\<close>), which is not among the
  sources. Section 4.1: construction may fail; \<^verbatim>\<open>Run\<close> starts the sampling loop, which
  sends batches into the channels of the sink; after the stop signal the loop finishes
  its tick and \<^verbatim>\<open>Wait\<close> returns; the engine never closes the channels of the sink.
  One run of the process is described by what the outside does in it: the error of
  \<^verbatim>\<open>NewKafkaSource\<close>, if any; what the engine and the workers do while \<^verbatim>\<open>main\<close>
  waits for the signal; the signal, if one arrives; what they do until the wait for the
  engine returns; the error of closing the engine, if any; and what the workers do
  while \<^verbatim>\<open>Close\<close> of the sink waits for them.
\<close>

record 'm scenario =
  new_source :: "error option"
  before_signal :: "'m action list"
  signal :: "string option"
  last_tick :: "'m action list"
  source_close :: "error option"
  closing_sched :: "'m action list"

definition log :: "'m event list \<Rightarrow> ('m, 'p) world \<Rightarrow> ('m, 'p) world" where
  "log evs w = w\<lparr>events := events w @ evs\<rparr>"

text \<open>
  The deferred function of lines 44 to 49: \<^verbatim>\<open>sink.Close()\<close>, and the error logged.
\<close>

definition deferred_sink_Close ::
  "('m, 'p) env \<Rightarrow> 'm action list \<Rightarrow> ('m, 'p) world \<Rightarrow> 'm event list res" where
  "deferred_sink_Close E sched w =
     seq (Close E sched w) (\<lambda>r.
       case r of
         (None, w') \<Rightarrow> Ok (events w')
       | (Some err, w') \<Rightarrow> Ok (events (log [LogError err] w')))"

text \<open>
  The deferred function of lines 55 to 60: \<^verbatim>\<open>s.Close()\<close>, and the error logged.
\<close>

definition deferred_source_Close :: "error option \<Rightarrow> ('m, 'p) world \<Rightarrow> ('m, 'p) world" where
  "deferred_source_Close r w =
     (case r of
        None \<Rightarrow> log [EvSourceClose] w
      | Some err \<Rightarrow> log [EvSourceClose, LogError err] w)"

text \<open>
  The goroutine of \<^verbatim>\<open>installSignalHandler\<close> once the signal has arrived (lines 26 to
  31): it closes the stop channel \<^verbatim>\<open>s.Run()\<close> returned and logs.
\<close>

definition signal_handler :: "string \<Rightarrow> ('m, 'p) world \<Rightarrow> ('m, 'p) world" where
  "signal_handler sig w =
     log [EvSignal sig, EvClose SourceStop, LogInfo (''Exiting given signal: '' @ sig)] w"

text \<open>
  \<^verbatim>\<open>main\<close>: the events of the run, in order. The sink is the Kafka sink, the one
  implementation of \<^verbatim>\<open>metrics.Sink\<close> among the sources. Without a signal
  \<^verbatim>\<open>main\<close> stays at \<^verbatim>\<open><-stopCh\<close>. The deferred calls run in reverse order when
  \<^verbatim>\<open>main\<close> returns.
\<close>

definition main ::
  "('m, 'p) env \<Rightarrow> ('m, 'p) registry \<Rightarrow> string \<Rightarrow> 'm scenario \<Rightarrow> 'm event list res" where
  "main E reg sinkName sc =
     (case metrics_New reg sinkName of
        Inl err \<Rightarrow> Ok [LogError err]
      | Inr sink \<Rightarrow>
          (case new_source sc of
             Some err \<Rightarrow>
               deferred_sink_Close E (closing_sched sc)
                 (log [EvNewKafkaSource, LogError err] sink)
           | None \<Rightarrow>
               seq (exec E (before_signal sc) (log [EvNewKafkaSource, EvSourceRun] sink)) (\<lambda>w.
                 case signal sc of
                   None \<Rightarrow> Blocked
                 | Some sig \<Rightarrow>
                     seq (exec E (last_tick sc) (signal_handler sig w)) (\<lambda>w.
                     seq (Wait (log [EvSourceWait] w)) (\<lambda>w.
                       deferred_sink_Close E (closing_sched sc)
                         (deferred_source_Close (source_close sc) (log [EvSinkWait] w)))))))"

text \<open>
  How a Go process ends: status 0 when \<^verbatim>\<open>main\<close> returns, status 2 on a panic that is
  not recovered; a process whose \<^verbatim>\<open>main\<close> is blocked has not ended. Neither file calls
  \<^verbatim>\<open>os.Exit\<close> or \<^verbatim>\<open>logrus.Fatal\<close>.
\<close>

definition exit_status :: "'a res \<Rightarrow> nat option" where
  "exit_status r = (case r of Ok x \<Rightarrow> Some 0 | Blocked \<Rightarrow> None | Panic x \<Rightarrow> Some 2)"

section \<open>Consumer-group lag\<close>

text \<open>
  Modelled from the spec: the construction of a consumer-group offset sample in the
  collection engine of \<^verbatim>\<open>pkg/metrics\<close>, which is not among the sources. Section 3:
  the sample holds group, topic, partition, timestamp, committed offset, log-end offset
  and lag, where lag is the log-end offset minus the committed offset, reported as 0 when
  that difference is negative.
\<close>

record ConsumerGroupOffsetMetric =
  cg_group :: string
  cg_topic :: string
  cg_partition :: int
  cg_timestamp :: int
  committedOffset :: int
  logEndOffset :: int
  lag :: int

definition consumer_group_offset_metric ::
  "string \<Rightarrow> string \<Rightarrow> int \<Rightarrow> int \<Rightarrow> int \<Rightarrow> int \<Rightarrow> ConsumerGroupOffsetMetric" where
  "consumer_group_offset_metric g t p ts committed log_end =
     \<lparr>cg_group = g, cg_topic = t, cg_partition = p, cg_timestamp = ts,
      committedOffset = committed, logEndOffset = log_end,
      lag = (if log_end - committed < 0 then 0 else log_end - committed)\<rparr>"

section \<open>Vocabulary of the properties\<close>

definition kinds :: "kind list" where
  "kinds = [Group, Offset, GroupRate, TopicRate]"

text \<open>The messages handed to the producer, and those a batch gives rise to.\<close>

definition sends_of :: "'m event list \<Rightarrow> ProducerMessage list" where
  "sends_of evs = concat (map (\<lambda>e. case e of EvSendMessage msg \<Rightarrow> [msg] | _ \<Rightarrow> []) evs)"

definition attempts :: "('m, 'p) env \<Rightarrow> string \<Rightarrow> 'm list \<Rightarrow> ProducerMessage list" where
  "attempts E tp metrics =
     concat (map (\<lambda>m. case Marshal E m of Inl err \<Rightarrow> [] | Inr b \<Rightarrow> [\<lparr>Topic = tp, Value = b\<rparr>])
       metrics)"

text \<open>
  The events of start-up and shutdown: all but log lines, producer calls, sends and the
  call of \<^verbatim>\<open>Wait\<close> on the sink.
\<close>

definition is_lifecycle :: "'m event \<Rightarrow> bool" where
  "is_lifecycle e =
     (case e of
        LogError err \<Rightarrow> False
      | LogInfo s \<Rightarrow> False
      | EvSendMessage msg \<Rightarrow> False
      | EvEnqueue k b \<Rightarrow> False
      | EvSinkWait \<Rightarrow> False
      | _ \<Rightarrow> True)"

definition lifecycle :: "'m event list \<Rightarrow> 'm event list" where
  "lifecycle evs = filter is_lifecycle evs"

text \<open>The last five events of a \<^verbatim>\<open>Close\<close> that returns.\<close>

definition teardown :: "'m event list" where
  "teardown = [EvClose (Metric Offset), EvClose (Metric Group), EvClose (Metric TopicRate),
               EvClose (Metric GroupRate), EvProducerClose]"

text \<open>The number of running workers.\<close>

definition running_count :: "('m, 'p) world \<Rightarrow> int" where
  "running_count w =
     (if workers w Group = Running then 1 else 0) + (if workers w Offset = Running then 1 else 0)
     + (if workers w GroupRate = Running then 1 else 0)
     + (if workers w TopicRate = Running then 1 else 0)"

definition open_chans :: "('m, 'p) world \<Rightarrow> bool" where
  "open_chans w = list_all (\<lambda>k. \<not> ch_closed (chan_of k w)) kinds"

text \<open>A sink whose stop channel has been closed and whose metric channels are open.\<close>

definition closing :: "('m, 'p) world \<Rightarrow> bool" where
  "closing w = (ch_closed (stopCh w) \<and> ch_buf (stopCh w) = [] \<and> open_chans w
     \<and> wg w = running_count w)"

text \<open>
  A sink in service: as \<^verbatim>\<open>NewKafkaSink\<close> returns it, with anything in the buffers of
  its metric channels.
\<close>

definition serving :: "('m, 'p) world \<Rightarrow> bool" where
  "serving w = (\<not> ch_closed (stopCh w) \<and> ch_buf (stopCh w) = [] \<and> open_chans w
     \<and> list_all (\<lambda>k. workers w k = Running) kinds \<and> wg w = 4)"

text \<open>
  In a schedule, the iterations worker \<open>k\<close> is given and the sends into its channel.
\<close>

fun turns :: "kind \<Rightarrow> 'm action list \<Rightarrow> nat" where
  "turns k [] = 0"
| "turns k (Select k' pick # sched) = (if k = k' then 1 else 0) + turns k sched"
| "turns k (Send k' b # sched) = turns k sched"

fun sends_to :: "kind \<Rightarrow> 'm action list \<Rightarrow> nat" where
  "sends_to k [] = 0"
| "sends_to k (Select k' pick # sched) = sends_to k sched"
| "sends_to k (Send k' b # sched) = (if k = k' then 1 else 0) + sends_to k sched"

text \<open>
  A schedule is fair to the workers of \<open>w\<close> when it gives each of them more iterations
  than there are batches it can find in its channel: those buffered in \<open>w\<close> and those
  sent during \<open>earlier\<close> and the schedule itself.
\<close>

definition fair :: "'m action list \<Rightarrow> 'm action list \<Rightarrow> ('m, 'p) world \<Rightarrow> bool" where
  "fair earlier sched w =
     list_all (\<lambda>k. length (ch_buf (chan_of k w)) + sends_to k (earlier @ sched) < turns k sched)
       kinds"

section \<open>A concrete run\<close>

text \<open>
  Metrics are numbers. Metric 0 cannot be serialised; metric 2 serialises to a message
  the broker refuses; the state of the producer counts its calls.
\<close>

definition demo_env :: "(nat, nat) env" where
  "demo_env =
     \<lparr>Marshal = (\<lambda>m. if m = 0 then Inl (Failure ''json: unsupported value'')
                     else if m = 2 then Inr ''refused'' else Inr ''metric''),
      SendMessage = (\<lambda>p msg. (if Value msg = ''refused'' then Some (Failure ''kafka: send failed'')
                                else None, p + 1)),
      ProducerClose = (\<lambda>p. (None, p))\<rparr>"

definition demo_batch :: "nat list" where
  "demo_batch = [1, 0, 2, 3]"

definition demo_sink :: "(nat, nat) world" where
  "demo_sink = new_sink 0 ''metrics''"

definition demo_registry :: "(nat, nat) registry" where
  "demo_registry = RegisterSink ''kafka'' (NewKafkaSink None (Inr 0) ''metrics'') Map.empty"

definition all_stop :: "nat action list" where
  "all_stop = [Select Group CaseStop, Select Offset CaseStop, Select GroupRate CaseStop,
               Select TopicRate CaseStop]"

text \<open>
  The sink after the source has sent one batch into the group channel, then after
  \<^verbatim>\<open>close(sink.stopCh)\<close>, and as a \<^verbatim>\<open>Close\<close> leaves it in which every worker takes
  the stop case at once.
\<close>

definition demo_buffered :: "(nat, nat) world" where
  "demo_buffered =
     log [EvEnqueue Group demo_batch]
       (set_chan Group ((make_chan 1024)\<lparr>ch_buf := [demo_batch]\<rparr>) demo_sink)"

definition demo_stopping :: "(nat, nat) world" where
  "demo_stopping =
     demo_buffered\<lparr>stopCh := (stopCh demo_buffered)\<lparr>ch_closed := True\<rparr>,
                   events := events demo_buffered @ [EvClose SinkStop]\<rparr>"

definition demo_abandoned :: "(nat, nat) world" where
  "demo_abandoned =
     \<lparr>offsetChan = \<lparr>ch_buf = [], ch_cap = 1024, ch_closed = True\<rparr>,
      groupChan = \<lparr>ch_buf = [demo_batch], ch_cap = 1024, ch_closed = True\<rparr>,
      topicRateChan = \<lparr>ch_buf = [], ch_cap = 1024, ch_closed = True\<rparr>,
      groupRateChan = \<lparr>ch_buf = [], ch_cap = 1024, ch_closed = True\<rparr>,
      stopCh = \<lparr>ch_buf = [], ch_cap = 0, ch_closed = True\<rparr>,
      producer = 0, topic = ''metrics'', wg = 0,
      workers = (\<lambda>k. Exited),
      events = [EvEnqueue Group demo_batch, EvClose SinkStop,
                LogInfo ''Kafka ConsumerGroupOffsetMetrics Stoped'', EvDone Group,
                LogInfo ''Kafka OffsetMetrics Stoped'', EvDone Offset,
                LogInfo ''Kafka GroupRateChan Stoped'', EvDone GroupRate,
                LogInfo ''Kafka TopicRateChan Stoped'', EvDone TopicRate,
                EvClose (Metric Offset), EvClose (Metric Group), EvClose (Metric TopicRate),
                EvClose (Metric GroupRate), EvProducerClose]\<rparr>"

definition demo_scenario :: "nat scenario" where
  "demo_scenario =
     \<lparr>new_source = None, before_signal = [Send Group [1]], signal = Some ''interrupt'',
      last_tick = [], source_close = None, closing_sched = all_stop\<rparr>"

text \<open>
  An environment whose producer fails on its second call only, whatever the message:
  a failure that depends on the state of the producer.
\<close>

definition flaky_env :: "(nat, nat) env" where
  "flaky_env =
     \<lparr>Marshal = (\<lambda>m. if m = 0 then Inl (Failure ''json: unsupported value'') else Inr ''metric''),
      SendMessage = (\<lambda>p msg. (if p = 1 then Some (Failure ''kafka: send failed'') else None, p + 1)),
      ProducerClose = (\<lambda>p. (None, p))\<rparr>"

text \<open>
  A run in which the group worker is busy when the second batch arrives. The source
  sends batch \<open>[1]\<close>; the worker receives it and calls \<^verbatim>\<open>SendMessage\<close>; while that call
  is under way the source sends batch \<open>[3]\<close>, which is therefore buffered; then the
  signal arrives. The call returns after \<^verbatim>\<open>close(sink.stopCh)\<close>, and in the \<^verbatim>\<open>select\<close>
  that follows, where both cases can proceed, the worker takes the stop case.
\<close>

definition busy_scenario :: "nat scenario" where
  "busy_scenario =
     \<lparr>new_source = None,
      before_signal = [Send Group [1], Select Group CaseMetrics, Send Group [3]],
      signal = Some ''interrupt'', last_tick = [], source_close = None,
      closing_sched = all_stop\<rparr>"

section \<open>Records, channels and events\<close>

lemma kinds_set: "set kinds = UNIV"
proof -
  have "k \<in> set kinds" for k by (cases k) (simp_all add: kinds_def)
  then show ?thesis by auto
qed

lemma chan_of_set_chan [simp]: "chan_of k (set_chan k' c w) = (if k = k' then c else chan_of k w)"
  by (cases k; cases k') simp_all

lemma set_chan_fields [simp]:
  "stopCh (set_chan k c w) = stopCh w"
  "producer (set_chan k c w) = producer w"
  "topic (set_chan k c w) = topic w"
  "wg (set_chan k c w) = wg w"
  "workers (set_chan k c w) = workers w"
  "events (set_chan k c w) = events w"
  by (cases k; simp)+

lemma chan_of_upd [simp]:
  "chan_of k (w\<lparr>stopCh := s\<rparr>) = chan_of k w"
  "chan_of k (w\<lparr>producer := p\<rparr>) = chan_of k w"
  "chan_of k (w\<lparr>wg := n\<rparr>) = chan_of k w"
  "chan_of k (w\<lparr>workers := ws\<rparr>) = chan_of k w"
  "chan_of k (w\<lparr>events := evs\<rparr>) = chan_of k w"
  by (cases k; simp)+

lemma can_recv_iff [simp]: "can_recv c = (ch_buf c \<noteq> [] \<or> ch_closed c)"
  by (simp add: can_recv_def chan_recv_def split: list.splits)

lemma seq_Ok: "seq m f = Ok y \<longleftrightarrow> (\<exists>x. m = Ok x \<and> f x = Ok y)"
  by (cases m) (simp_all add: seq_def)

lemma seq_simps [simp]:
  "seq (Ok x) f = f x"
  "seq Blocked f = Blocked"
  "seq (Panic s) f = Panic s"
  by (simp_all add: seq_def)

lemma sends_of_append [simp]: "sends_of (xs @ ys) = sends_of xs @ sends_of ys"
  by (simp add: sends_of_def)

lemma sends_of_simps [simp]:
  "sends_of [] = []"
  "sends_of (EvSendMessage msg # evs) = msg # sends_of evs"
  "sends_of (LogError err # evs) = sends_of evs"
  "sends_of (LogInfo s # evs) = sends_of evs"
  "sends_of (EvDone k # evs) = sends_of evs"
  "sends_of (EvClose c # evs) = sends_of evs"
  "sends_of (EvProducerClose # evs) = sends_of evs"
  "sends_of (EvEnqueue k b # evs) = sends_of evs"
  by (simp_all add: sends_of_def)

lemma lifecycle_append [simp]: "lifecycle (xs @ ys) = lifecycle xs @ lifecycle ys"
  by (simp add: lifecycle_def)

lemma lifecycle_simps [simp]:
  "lifecycle [] = []"
  "lifecycle (LogError err # evs) = lifecycle evs"
  "lifecycle (LogInfo s # evs) = lifecycle evs"
  "lifecycle (EvSendMessage msg # evs) = lifecycle evs"
  "lifecycle (EvEnqueue k b # evs) = lifecycle evs"
  "lifecycle (EvDone k # evs) = EvDone k # lifecycle evs"
  "lifecycle (EvClose c # evs) = EvClose c # lifecycle evs"
  "lifecycle (EvProducerClose # evs) = EvProducerClose # lifecycle evs"
  "lifecycle (EvNewKafkaSource # evs) = EvNewKafkaSource # lifecycle evs"
  "lifecycle (EvSourceRun # evs) = EvSourceRun # lifecycle evs"
  "lifecycle (EvSignal sig # evs) = EvSignal sig # lifecycle evs"
  "lifecycle (EvSourceWait # evs) = EvSourceWait # lifecycle evs"
  "lifecycle (EvSinkWait # evs) = lifecycle evs"
  "lifecycle (EvSourceClose # evs) = EvSourceClose # lifecycle evs"
  by (simp_all add: lifecycle_def is_lifecycle_def)

section \<open>The export loop\<close>

lemma export_metric_sends:
  "sends_of (snd (export_metric E tp m (p, evs))) = sends_of evs @ attempts E tp [m]"
  by (simp add: export_metric_def attempts_def split: sum.splits prod.splits option.splits)

lemma attempts_Cons: "attempts E tp (m # ms) = attempts E tp [m] @ attempts E tp ms"
  by (simp add: attempts_def)

lemma range_metrics_sends:
  "sends_of (snd (range_metrics E tp ms (p, evs))) = sends_of evs @ attempts E tp ms"
proof (induction ms arbitrary: p evs)
  case Nil
  show ?case by (simp add: attempts_def)
next
  case (Cons m ms)
  obtain p' evs' where st: "export_metric E tp m (p, evs) = (p', evs')"
    by (cases "export_metric E tp m (p, evs)")
  have "sends_of evs' = sends_of evs @ attempts E tp [m]"
    using export_metric_sends [of E tp m p evs] st by simp
  then show ?case
    using Cons.IH [of p' evs'] st attempts_Cons [of E tp m ms] by simp
qed

lemma export_metric_grows: "\<exists>new. snd (export_metric E tp m (p, evs)) = evs @ new"
  by (simp add: export_metric_def split: sum.splits prod.splits option.splits)

lemma range_metrics_grows: "\<exists>new. snd (range_metrics E tp ms (p, evs)) = evs @ new"
proof (induction ms arbitrary: p evs)
  case Nil
  show ?case by simp
next
  case (Cons m ms)
  obtain p' evs' where st: "export_metric E tp m (p, evs) = (p', evs')"
    by (cases "export_metric E tp m (p, evs)")
  obtain n1 where n1: "evs' = evs @ n1"
    using export_metric_grows [of E tp m p evs] st by auto
  obtain n2 where "snd (range_metrics E tp ms (p', evs')) = evs' @ n2"
    using Cons.IH [of p' evs'] by auto
  then show ?case using st n1 by simp
qed

lemma range_metrics_keeps:
  "e \<in> set evs \<Longrightarrow> e \<in> set (snd (range_metrics E tp ms (p, evs)))"
  using range_metrics_grows [of E tp ms p evs] by auto

lemma export_metric_marshal_error:
  "Marshal E m = Inl err \<Longrightarrow> LogError err \<in> set (snd (export_metric E tp m (p, evs)))"
  by (simp add: export_metric_def)

lemma export_metric_send_error:
  assumes "Marshal E m = Inr b"
    and "\<forall>q. fst (SendMessage E q \<lparr>Topic = tp, Value = b\<rparr>) = Some err"
  shows "LogError err \<in> set (snd (export_metric E tp m (p, evs)))"
proof -
  obtain r p' where s: "SendMessage E p \<lparr>Topic = tp, Value = b\<rparr> = (r, p')"
    by (cases "SendMessage E p \<lparr>Topic = tp, Value = b\<rparr>")
  have "r = Some err" using assms(2) s by (metis fst_conv)
  then show ?thesis using assms(1) s by (simp add: export_metric_def)
qed

lemma range_metrics_marshal_error:
  "m \<in> set ms \<Longrightarrow> Marshal E m = Inl err \<Longrightarrow>
   LogError err \<in> set (snd (range_metrics E tp ms (p, evs)))"
proof (induction ms arbitrary: p evs)
  case Nil
  then show ?case by simp
next
  case (Cons x ms)
  obtain p' evs' where st: "export_metric E tp x (p, evs) = (p', evs')"
    by (cases "export_metric E tp x (p, evs)")
  show ?case
  proof (cases "m = x")
    case True
    then have "LogError err \<in> set evs'"
      using export_metric_marshal_error [of E x err tp p evs] Cons.prems st by simp
    then show ?thesis using st range_metrics_keeps [of _ evs' E tp ms p'] by simp
  next
    case False
    then have "m \<in> set ms" using Cons.prems by simp
    then show ?thesis using Cons.IH [of p' evs'] Cons.prems st by simp
  qed
qed

lemma range_metrics_send_error:
  "m \<in> set ms \<Longrightarrow> Marshal E m = Inr b \<Longrightarrow>
   \<forall>q. fst (SendMessage E q \<lparr>Topic = tp, Value = b\<rparr>) = Some err \<Longrightarrow>
   LogError err \<in> set (snd (range_metrics E tp ms (p, evs)))"
proof (induction ms arbitrary: p evs)
  case Nil
  then show ?case by simp
next
  case (Cons x ms)
  obtain p' evs' where st: "export_metric E tp x (p, evs) = (p', evs')"
    by (cases "export_metric E tp x (p, evs)")
  show ?case
  proof (cases "m = x")
    case True
    then have "LogError err \<in> set evs'"
      using export_metric_send_error [of E x b tp err p evs] Cons.prems st by simp
    then show ?thesis using st range_metrics_keeps [of _ evs' E tp ms p'] by simp
  next
    case False
    then have "m \<in> set ms" using Cons.prems by simp
    then show ?thesis using Cons.IH [of p' evs'] Cons.prems st by simp
  qed
qed

lemma export_metric_lifecycle:
  "lifecycle (snd (export_metric E tp m (p, evs))) = lifecycle evs"
  by (simp add: export_metric_def split: sum.splits prod.splits option.splits)

lemma range_metrics_lifecycle:
  "lifecycle (snd (range_metrics E tp ms (p, evs))) = lifecycle evs"
proof (induction ms arbitrary: p evs)
  case Nil
  show ?case by simp
next
  case (Cons m ms)
  obtain p' evs' where st: "export_metric E tp m (p, evs) = (p', evs')"
    by (cases "export_metric E tp m (p, evs)")
  have "lifecycle evs' = lifecycle evs"
    using export_metric_lifecycle [of E tp m p evs] st by simp
  then show ?case using Cons.IH [of p' evs'] st by simp
qed

section \<open>Steps of the workers and of the source\<close>

lemma open_chans_iff: "open_chans w = (\<forall>k. \<not> ch_closed (chan_of k w))"
  by (simp add: open_chans_def list_all_iff kinds_set)

lemma all_running_iff: "list_all (\<lambda>k. workers w k = Running) kinds = (\<forall>k. workers w k = Running)"
  by (simp add: list_all_iff kinds_set)

lemma serving_iff:
  "serving w = (\<not> ch_closed (stopCh w) \<and> ch_buf (stopCh w) = []
     \<and> (\<forall>k. \<not> ch_closed (chan_of k w)) \<and> (\<forall>k. workers w k = Running) \<and> wg w = 4)"
  by (simp add: serving_def open_chans_iff all_running_iff)

lemma running_count_exit:
  "workers w k = Running \<Longrightarrow>
   running_count (w\<lparr>workers := (workers w)(k := Exited)\<rparr>) = running_count w - 1"
  by (cases k) (simp_all add: running_count_def)

lemma running_count_pos: "workers w k = Running \<Longrightarrow> 1 \<le> running_count w"
  by (cases k) (simp_all add: running_count_def)

lemma running_count_zero: "(\<forall>k. workers w k \<noteq> Running) \<Longrightarrow> running_count w = 0"
  by (simp add: running_count_def)

lemma running_count_all: "(\<forall>k. workers w k = Running) \<Longrightarrow> running_count w = 4"
  by (simp add: running_count_def)

lemma case_metrics_Cons:
  assumes "ch_buf (chan_of k w) = b # rest"
  shows "case_metrics E k w =
    Ok ((set_chan k ((chan_of k w)\<lparr>ch_buf := rest\<rparr>) w)
          \<lparr>producer := fst (range_metrics E (topic w) b (producer w, events w)),
           events := snd (range_metrics E (topic w) b (producer w, events w))\<rparr>)"
  using assms by (simp add: case_metrics_def chan_recv_def split: prod.splits)

lemma case_stop_closed:
  assumes "ch_closed (stopCh w)" "ch_buf (stopCh w) = []" "1 \<le> wg w"
  shows "case_stop k w =
    Ok (w\<lparr>wg := wg w - 1, workers := (workers w)(k := Exited),
          events := events w @ [LogInfo (stop_msg k), EvDone k]\<rparr>)"
  using assms by (simp add: case_stop_def chan_recv_def wg_Done_def)

lemma select_metrics:
  assumes "workers w k = Running" "ch_buf (chan_of k w) = b # rest"
    and "pick = CaseMetrics \<or> \<not> can_recv (stopCh w)"
  shows "worker_select E k pick w =
    Ok ((set_chan k ((chan_of k w)\<lparr>ch_buf := rest\<rparr>) w)
          \<lparr>producer := fst (range_metrics E (topic w) b (producer w, events w)),
           events := snd (range_metrics E (topic w) b (producer w, events w))\<rparr>)"
  using assms case_metrics_Cons [of k w b rest E] by (auto simp: worker_select_def)

lemma select_stop:
  assumes "closing w" "workers w k = Running" "pick = CaseStop \<or> ch_buf (chan_of k w) = []"
  shows "worker_select E k pick w =
    Ok (w\<lparr>wg := wg w - 1, workers := (workers w)(k := Exited),
          events := events w @ [LogInfo (stop_msg k), EvDone k]\<rparr>)"
proof -
  have o: "\<not> ch_closed (chan_of k w)"
    using assms(1) by (simp add: closing_def open_chans_iff)
  have g: "1 \<le> wg w"
    using assms(1,2) running_count_pos [of w k] by (simp add: closing_def)
  have s: "ch_closed (stopCh w)" "ch_buf (stopCh w) = []"
    using assms(1) by (simp_all add: closing_def)
  have "worker_select E k pick w = case_stop k w"
    using assms(2,3) o s by (auto simp: worker_select_def)
  then show ?thesis using case_stop_closed [OF s g] by simp
qed

lemma select_blocked:
  assumes "\<not> ch_closed (stopCh w)" "ch_buf (stopCh w) = []" "\<not> ch_closed (chan_of k w)"
    and "ch_buf (chan_of k w) = []"
  shows "worker_select E k pick w = Blocked"
  using assms by (simp add: worker_select_def)

lemma send_open:
  assumes "\<not> ch_closed (chan_of k w)"
  shows "engine_send k b w =
    (if length (ch_buf (chan_of k w)) < ch_cap (chan_of k w)
     then Ok ((set_chan k ((chan_of k w)\<lparr>ch_buf := ch_buf (chan_of k w) @ [b]\<rparr>) w)
                \<lparr>events := events w @ [EvEnqueue k b]\<rparr>)
     else Blocked)"
  using assms by (simp add: engine_send_def chan_send_def)

lemma closing_after_metrics:
  assumes "closing w"
  shows "closing ((set_chan k ((chan_of k w)\<lparr>ch_buf := rest\<rparr>) w)\<lparr>producer := p, events := evs\<rparr>)"
proof -
  have "\<not> ch_closed (chan_of k w)"
    using assms by (simp add: closing_def open_chans_iff)
  then show ?thesis
    using assms by (simp add: closing_def open_chans_iff running_count_def)
qed

lemma closing_after_stop:
  assumes "closing w" "workers w k = Running"
  shows "closing (w\<lparr>wg := wg w - 1, workers := (workers w)(k := Exited), events := evs\<rparr>)"
proof -
  have "running_count (w\<lparr>workers := (workers w)(k := Exited)\<rparr>) = running_count w - 1"
    using assms(2) by (rule running_count_exit)
  then have "running_count (w\<lparr>wg := wg w - 1, workers := (workers w)(k := Exited), events := evs\<rparr>)
      = running_count w - 1"
    by (simp add: running_count_def)
  then show ?thesis
    using assms(1) by (simp add: closing_def open_chans_iff)
qed

lemma closing_after_send:
  assumes "closing w"
  shows "closing ((set_chan k ((chan_of k w)\<lparr>ch_buf := xs\<rparr>) w)\<lparr>events := evs\<rparr>)"
proof -
  have "\<not> ch_closed (chan_of k w)"
    using assms by (simp add: closing_def open_chans_iff)
  then show ?thesis
    using assms by (simp add: closing_def open_chans_iff running_count_def)
qed

lemma serving_after_recv:
  assumes "serving w"
  shows "serving ((set_chan k ((chan_of k w)\<lparr>ch_buf := xs\<rparr>) w)\<lparr>producer := p, events := evs\<rparr>)"
proof -
  have "\<not> ch_closed (chan_of k w)"
    using assms by (simp add: serving_iff)
  then show ?thesis
    using assms by (simp add: serving_iff)
qed

lemma serving_after_send:
  assumes "serving w"
  shows "serving ((set_chan k ((chan_of k w)\<lparr>ch_buf := xs\<rparr>) w)\<lparr>events := evs\<rparr>)"
proof -
  have "\<not> ch_closed (chan_of k w)"
    using assms by (simp add: serving_iff)
  then show ?thesis
    using assms by (simp add: serving_iff)
qed

lemma serving_log: "serving w \<Longrightarrow> serving (log evs w)"
  by (simp add: serving_iff log_def)

lemma log_fields [simp]:
  "chan_of k (log evs w) = chan_of k w"
  "events (log evs w) = events w @ evs"
  by (simp_all add: log_def)

section \<open>Executions\<close>

lemma exec_closing:
  assumes "closing w"
    and "\<forall>k. workers w k = Running \<longrightarrow>
           length (ch_buf (chan_of k w)) + sends_to k sched < turns k sched"
  shows "\<exists>w' ks. exec E sched w = Ok w' \<and> closing w' \<and> (\<forall>k. workers w' k \<noteq> Running)
           \<and> lifecycle (events w') = lifecycle (events w) @ map EvDone ks
           \<and> distinct ks \<and> set ks = {k. workers w k = Running}"
  using assms
proof (induction sched arbitrary: w)
  case Nil
  then have "\<forall>k. workers w k \<noteq> Running" by simp
  then show ?case using Nil.prems(1) by simp
next
  case (Cons a sched)
  note cl = Cons.prems(1) and enough = Cons.prems(2) [rule_format]
  show ?case
  proof (cases a)
    case (Select k pick)
    show ?thesis
    proof (cases "workers w k = Running")
      case False
      then have st: "step E a w = Blocked" using Select by (simp add: worker_select_def)
      have "\<forall>j. workers w j = Running \<longrightarrow>
               length (ch_buf (chan_of j w)) + sends_to j sched < turns j sched"
      proof (intro allI impI)
        fix j assume r: "workers w j = Running"
        then have "j \<noteq> k" using False by auto
        then show "length (ch_buf (chan_of j w)) + sends_to j sched < turns j sched"
          using enough [OF r] Select by simp
      qed
      from Cons.IH [OF cl this] show ?thesis using st by simp
    next
      case True
      show ?thesis
      proof (cases "ch_buf (chan_of k w) \<noteq> [] \<and> pick = CaseMetrics")
        case True
        then obtain b rest where buf: "ch_buf (chan_of k w) = b # rest"
          by (cases "ch_buf (chan_of k w)") auto
        define w1 where "w1 = (set_chan k ((chan_of k w)\<lparr>ch_buf := rest\<rparr>) w)
          \<lparr>producer := fst (range_metrics E (topic w) b (producer w, events w)),
           events := snd (range_metrics E (topic w) b (producer w, events w))\<rparr>"
        have st: "step E a w = Ok w1"
          using select_metrics [OF \<open>workers w k = Running\<close> buf, of pick E] True Select
          by (simp add: w1_def)
        have cl1: "closing w1" unfolding w1_def using cl by (rule closing_after_metrics)
        have wk: "workers w1 = workers w" by (simp add: w1_def)
        have lc: "lifecycle (events w1) = lifecycle (events w)"
          by (simp add: w1_def range_metrics_lifecycle)
        have "\<forall>j. workers w1 j = Running \<longrightarrow>
               length (ch_buf (chan_of j w1)) + sends_to j sched < turns j sched"
        proof (intro allI impI)
          fix j assume "workers w1 j = Running"
          then have r: "workers w j = Running" using wk by simp
          show "length (ch_buf (chan_of j w1)) + sends_to j sched < turns j sched"
            using enough [OF r] Select buf by (cases "j = k") (simp_all add: w1_def)
        qed
        from Cons.IH [OF cl1 this] show ?thesis using st wk lc by simp
      next
        case False
        define w1 where "w1 = w\<lparr>wg := wg w - 1, workers := (workers w)(k := Exited),
          events := events w @ [LogInfo (stop_msg k), EvDone k]\<rparr>"
        have "pick = CaseStop \<or> ch_buf (chan_of k w) = []"
          using False by (cases pick) auto
        then have st: "step E a w = Ok w1"
          using select_stop [OF cl \<open>workers w k = Running\<close>, of pick E] Select
          by (simp add: w1_def)
        have cl1: "closing w1"
          unfolding w1_def using cl \<open>workers w k = Running\<close> by (rule closing_after_stop)
        have wk: "workers w1 = (workers w)(k := Exited)" by (simp add: w1_def)
        have lc: "lifecycle (events w1) = lifecycle (events w) @ [EvDone k]"
          by (simp add: w1_def)
        have "\<forall>j. workers w1 j = Running \<longrightarrow>
               length (ch_buf (chan_of j w1)) + sends_to j sched < turns j sched"
        proof (intro allI impI)
          fix j assume r1: "workers w1 j = Running"
          then have jk: "j \<noteq> k" and r: "workers w j = Running"
            using wk by (auto split: if_splits)
          show "length (ch_buf (chan_of j w1)) + sends_to j sched < turns j sched"
            using enough [OF r] Select jk by (simp add: w1_def)
        qed
        from Cons.IH [OF cl1 this] obtain w' ks where
          r: "exec E sched w1 = Ok w'" "closing w'" "\<forall>j. workers w' j \<noteq> Running"
            "lifecycle (events w') = lifecycle (events w1) @ map EvDone ks"
            "distinct ks" "set ks = {j. workers w1 j = Running}"
          by blast
        have d: "distinct (k # ks)" using r(5,6) wk by simp
        have s: "set (k # ks) = {j. workers w j = Running}"
          using r(6) wk \<open>workers w k = Running\<close> by auto
        have l: "lifecycle (events w') = lifecycle (events w) @ map EvDone (k # ks)"
          using r(4) lc by simp
        have "exec E (a # sched) w = Ok w'" using st r(1) by simp
        then show ?thesis using r(2,3) d s l by blast
      qed
    qed
  next
    case (Send k b)
    have o: "\<not> ch_closed (chan_of k w)"
      using cl by (simp add: closing_def open_chans_iff)
    show ?thesis
    proof (cases "length (ch_buf (chan_of k w)) < ch_cap (chan_of k w)")
      case False
      then have st: "step E a w = Blocked" using Send send_open [OF o, of b] by simp
      have "\<forall>j. workers w j = Running \<longrightarrow>
               length (ch_buf (chan_of j w)) + sends_to j sched < turns j sched"
      proof (intro allI impI)
        fix j assume r: "workers w j = Running"
        show "length (ch_buf (chan_of j w)) + sends_to j sched < turns j sched"
          using enough [OF r] Send by (simp split: if_splits)
      qed
      from Cons.IH [OF cl this] show ?thesis using st by simp
    next
      case True
      define w1 where "w1 = (set_chan k ((chan_of k w)\<lparr>ch_buf := ch_buf (chan_of k w) @ [b]\<rparr>) w)
                \<lparr>events := events w @ [EvEnqueue k b]\<rparr>"
      have st: "step E a w = Ok w1"
        using Send send_open [OF o, of b] True by (simp add: w1_def)
      have cl1: "closing w1" unfolding w1_def using cl by (rule closing_after_send)
      have wk: "workers w1 = workers w" by (simp add: w1_def)
      have lc: "lifecycle (events w1) = lifecycle (events w)" by (simp add: w1_def)
      have "\<forall>j. workers w1 j = Running \<longrightarrow>
             length (ch_buf (chan_of j w1)) + sends_to j sched < turns j sched"
      proof (intro allI impI)
        fix j assume "workers w1 j = Running"
        then have r: "workers w j = Running" using wk by simp
        show "length (ch_buf (chan_of j w1)) + sends_to j sched < turns j sched"
          using enough [OF r] Send by (cases "j = k") (simp_all add: w1_def)
      qed
      from Cons.IH [OF cl1 this] show ?thesis using st wk lc by simp
    qed
  qed
qed

text \<open>
  While the sink is in service no step panics, no worker exits, the capacities stay, no
  buffer grows beyond its capacity, and a buffer grows by at most the sends into it.
\<close>

lemma exec_serving:
  assumes "serving w"
  shows "\<exists>w'. exec E sched w = Ok w' \<and> serving w'
           \<and> lifecycle (events w') = lifecycle (events w)
           \<and> (\<forall>k. ch_cap (chan_of k w') = ch_cap (chan_of k w))
           \<and> (\<forall>k. length (ch_buf (chan_of k w')) \<le> length (ch_buf (chan_of k w)) + sends_to k sched)
           \<and> (\<forall>k. length (ch_buf (chan_of k w'))
                    \<le> max (length (ch_buf (chan_of k w))) (ch_cap (chan_of k w)))"
  using assms
proof (induction sched arbitrary: w)
  case Nil
  then show ?case by simp
next
  case (Cons a sched)
  note sv = Cons.prems
  have o: "\<not> ch_closed (chan_of k w)" for k using sv by (simp add: serving_iff)
  have r: "workers w k = Running" for k using sv by (simp add: serving_iff)
  have s: "\<not> ch_closed (stopCh w)" "ch_buf (stopCh w) = []" using sv by (simp_all add: serving_iff)
  show ?case
  proof (cases a)
    case (Select k pick)
    show ?thesis
    proof (cases "ch_buf (chan_of k w)")
      case Nil
      have st: "step E a w = Blocked"
        using Select select_blocked [OF s o Nil, of E pick] by simp
      from Cons.IH [OF sv] show ?thesis using st Select by simp
    next
      case (Cons b rest)
      define w1 where "w1 = (set_chan k ((chan_of k w)\<lparr>ch_buf := rest\<rparr>) w)
          \<lparr>producer := fst (range_metrics E (topic w) b (producer w, events w)),
           events := snd (range_metrics E (topic w) b (producer w, events w))\<rparr>"
      have "\<not> can_recv (stopCh w)" using s by simp
      then have st: "step E a w = Ok w1"
        using select_metrics [OF r Cons, of pick E] Select by (simp add: w1_def)
      have sv1: "serving w1" unfolding w1_def using sv by (rule serving_after_recv)
      have lc: "lifecycle (events w1) = lifecycle (events w)"
        by (simp add: w1_def range_metrics_lifecycle)
      have cp: "ch_cap (chan_of j w1) = ch_cap (chan_of j w)" for j by (simp add: w1_def)
      have ln: "length (ch_buf (chan_of j w1)) \<le> length (ch_buf (chan_of j w))" for j
        using Cons by (simp add: w1_def)
      from Cons.IH [OF sv1] obtain w' where
        h: "exec E sched w1 = Ok w'" "serving w'"
          "lifecycle (events w') = lifecycle (events w1)"
          "\<forall>j. ch_cap (chan_of j w') = ch_cap (chan_of j w1)"
          "\<forall>j. length (ch_buf (chan_of j w')) \<le> length (ch_buf (chan_of j w1)) + sends_to j sched"
          "\<forall>j. length (ch_buf (chan_of j w'))
                 \<le> max (length (ch_buf (chan_of j w1))) (ch_cap (chan_of j w1))"
        by blast
      have a1: "exec E (a # sched) w = Ok w'" using st h(1) by simp
      have a3: "lifecycle (events w') = lifecycle (events w)" using h(3) lc by simp
      have a4: "\<forall>j. ch_cap (chan_of j w') = ch_cap (chan_of j w)" using h(4) cp by simp
      have a5: "\<forall>j. length (ch_buf (chan_of j w'))
                  \<le> length (ch_buf (chan_of j w)) + sends_to j (a # sched)"
      proof
        fix j
        show "length (ch_buf (chan_of j w')) \<le> length (ch_buf (chan_of j w)) + sends_to j (a # sched)"
          using h(5) [rule_format, of j] ln [of j] Select by simp
      qed
      have a6: "\<forall>j. length (ch_buf (chan_of j w'))
                  \<le> max (length (ch_buf (chan_of j w))) (ch_cap (chan_of j w))"
      proof
        fix j
        show "length (ch_buf (chan_of j w'))
                \<le> max (length (ch_buf (chan_of j w))) (ch_cap (chan_of j w))"
          using h(6) [rule_format, of j] ln [of j] cp [of j] by simp
      qed
      show ?thesis using a1 h(2) a3 a4 a5 a6 by blast
    qed
  next
    case (Send k b)
    show ?thesis
    proof (cases "length (ch_buf (chan_of k w)) < ch_cap (chan_of k w)")
      case False
      then have st: "step E a w = Blocked" using Send send_open [OF o, of k b] by simp
      from Cons.IH [OF sv] obtain w' where
        h: "exec E sched w = Ok w'" "serving w'"
          "lifecycle (events w') = lifecycle (events w)"
          "\<forall>j. ch_cap (chan_of j w') = ch_cap (chan_of j w)"
          "\<forall>j. length (ch_buf (chan_of j w')) \<le> length (ch_buf (chan_of j w)) + sends_to j sched"
          "\<forall>j. length (ch_buf (chan_of j w'))
                 \<le> max (length (ch_buf (chan_of j w))) (ch_cap (chan_of j w))"
        by blast
      have a1: "exec E (a # sched) w = Ok w'" using st h(1) by simp
      have a5: "\<forall>j. length (ch_buf (chan_of j w'))
                  \<le> length (ch_buf (chan_of j w)) + sends_to j (a # sched)"
      proof
        fix j
        show "length (ch_buf (chan_of j w')) \<le> length (ch_buf (chan_of j w)) + sends_to j (a # sched)"
          using h(5) [rule_format, of j] Send by simp
      qed
      show ?thesis using a1 h(2,3,4,6) a5 by blast
    next
      case True
      define w1 where "w1 = (set_chan k ((chan_of k w)\<lparr>ch_buf := ch_buf (chan_of k w) @ [b]\<rparr>) w)
                \<lparr>events := events w @ [EvEnqueue k b]\<rparr>"
      have st: "step E a w = Ok w1"
        using Send send_open [OF o, of k b] True by (simp add: w1_def)
      have sv1: "serving w1" unfolding w1_def using sv by (rule serving_after_send)
      have lc: "lifecycle (events w1) = lifecycle (events w)" by (simp add: w1_def)
      have cp: "ch_cap (chan_of j w1) = ch_cap (chan_of j w)" for j by (simp add: w1_def)
      have ln: "length (ch_buf (chan_of j w1))
                  = length (ch_buf (chan_of j w)) + (if j = k then 1 else 0)" for j
        by (simp add: w1_def)
      from Cons.IH [OF sv1] obtain w' where
        h: "exec E sched w1 = Ok w'" "serving w'"
          "lifecycle (events w') = lifecycle (events w1)"
          "\<forall>j. ch_cap (chan_of j w') = ch_cap (chan_of j w1)"
          "\<forall>j. length (ch_buf (chan_of j w')) \<le> length (ch_buf (chan_of j w1)) + sends_to j sched"
          "\<forall>j. length (ch_buf (chan_of j w'))
                 \<le> max (length (ch_buf (chan_of j w1))) (ch_cap (chan_of j w1))"
        by blast
      have a1: "exec E (a # sched) w = Ok w'" using st h(1) by simp
      have a3: "lifecycle (events w') = lifecycle (events w)" using h(3) lc by simp
      have a4: "\<forall>j. ch_cap (chan_of j w') = ch_cap (chan_of j w)" using h(4) cp by simp
      have a5: "\<forall>j. length (ch_buf (chan_of j w'))
                  \<le> length (ch_buf (chan_of j w)) + sends_to j (a # sched)"
      proof
        fix j
        show "length (ch_buf (chan_of j w')) \<le> length (ch_buf (chan_of j w)) + sends_to j (a # sched)"
          using h(5) [rule_format, of j] ln [of j] Send by simp
      qed
      have a6: "\<forall>j. length (ch_buf (chan_of j w'))
                  \<le> max (length (ch_buf (chan_of j w))) (ch_cap (chan_of j w))"
      proof
        fix j
        show "length (ch_buf (chan_of j w'))
                \<le> max (length (ch_buf (chan_of j w))) (ch_cap (chan_of j w))"
          using h(6) [rule_format, of j] ln [of j] cp [of j] True by (cases "j = k") auto
      qed
      show ?thesis using a1 h(2) a3 a4 a5 a6 by blast
    qed
  qed
qed

lemma sends_to_append: "sends_to k (xs @ ys) = sends_to k xs + sends_to k ys"
  by (induction xs rule: sends_to.induct) simp_all

lemma step_stop_closed:
  assumes "step E a w = Ok w'" "ch_closed (stopCh w)"
  shows "ch_closed (stopCh w')"
proof (cases a)
  case (Select k pick)
  have m: "case_metrics E k w = Ok w' \<Longrightarrow> stopCh w' = stopCh w"
    by (auto simp: case_metrics_def split: res.splits prod.splits)
  have c: "case_stop k w = Ok w' \<Longrightarrow> ch_closed (stopCh w')"
    using assms(2)
    by (auto simp: case_stop_def chan_recv_def wg_Done_def
        split: res.splits prod.splits list.splits if_splits)
  have "case_metrics E k w = Ok w' \<or> case_stop k w = Ok w'"
    using assms(1) Select by (auto simp: worker_select_def split: if_splits select_case.splits)
  then show ?thesis using m c assms(2) by auto
next
  case (Send k b)
  then have "stopCh w' = stopCh w"
    using assms(1) by (auto simp: engine_send_def split: res.splits)
  then show ?thesis using assms(2) by simp
qed

lemma exec_stop_closed:
  "exec E sched w = Ok w' \<Longrightarrow> ch_closed (stopCh w) \<Longrightarrow> ch_closed (stopCh w')"
proof (induction sched arbitrary: w)
  case Nil
  then show ?case by simp
next
  case (Cons a sched)
  show ?case
  proof (cases "step E a w")
    case (Ok w1)
    then have "ch_closed (stopCh w1)" using step_stop_closed Cons.prems(2) by blast
    then show ?thesis using Cons.IH [of w1] Cons.prems(1) Ok by simp
  next
    case Blocked
    then show ?thesis using Cons.IH [of w] Cons.prems by simp
  next
    case (Panic x)
    then show ?thesis using Cons.prems(1) by simp
  qed
qed

section \<open>Close\<close>

lemma close_metric_open:
  assumes "\<not> ch_closed (chan_of k w)"
  shows "close_metric k w =
    Ok ((set_chan k ((chan_of k w)\<lparr>ch_closed := True\<rparr>) w)
          \<lparr>events := events w @ [EvClose (Metric k)]\<rparr>)"
  using assms by (simp add: close_metric_def chan_close_def)

lemma close_metric_stopCh: "close_metric k w = Ok w' \<Longrightarrow> stopCh w' = stopCh w"
  by (auto simp: close_metric_def split: res.splits)

lemma teardown_open:
  assumes "open_chans w"
  shows "\<exists>err w'.
    seq (close_metric Offset w) (\<lambda>w.
    seq (close_metric Group w) (\<lambda>w.
    seq (close_metric TopicRate w) (\<lambda>w.
    seq (close_metric GroupRate w) (\<lambda>w.
    producer_Close E w)))) = Ok (err, w')
    \<and> events w' = events w @ teardown \<and> stopCh w' = stopCh w \<and> wg w' = wg w
    \<and> workers w' = workers w \<and> (\<forall>k. ch_closed (chan_of k w'))"
proof -
  have o: "\<not> ch_closed (offsetChan w)" "\<not> ch_closed (groupChan w)"
    "\<not> ch_closed (topicRateChan w)" "\<not> ch_closed (groupRateChan w)"
    using assms by (simp_all add: open_chans_def kinds_def)
  have all: "(\<forall>k. P k) = (P Group \<and> P Offset \<and> P GroupRate \<and> P TopicRate)" for P
    by (metis kind.exhaust)
  show ?thesis
    using o
    by (simp add: close_metric_def chan_close_def producer_Close_def teardown_def all
        split: prod.splits)
qed

lemma Close_serving:
  assumes "serving w"
    and "\<forall>k. length (ch_buf (chan_of k w)) + sends_to k sched < turns k sched"
  shows "\<exists>err w' ks. Close E sched w = Ok (err, w')
           \<and> ch_closed (stopCh w') \<and> (\<forall>k. ch_closed (chan_of k w'))
           \<and> (\<forall>k. workers w' k \<noteq> Running) \<and> wg w' = 0
           \<and> lifecycle (events w')
               = lifecycle (events w) @ EvClose SinkStop # map EvDone ks @ teardown
           \<and> distinct ks \<and> set ks = UNIV"
proof -
  define w0 where "w0 = w\<lparr>stopCh := (stopCh w)\<lparr>ch_closed := True\<rparr>,
    events := events w @ [EvClose SinkStop]\<rparr>"
  have s1: "close_stopCh w = Ok w0"
    using assms(1) by (simp add: close_stopCh_def chan_close_def serving_iff w0_def)
  have rc: "running_count w0 = 4"
    using assms(1) by (simp add: running_count_def serving_iff w0_def)
  have cl: "closing w0"
    using assms(1) rc by (simp add: closing_def serving_iff open_chans_iff w0_def)
  have en: "\<forall>k. workers w0 k = Running \<longrightarrow>
           length (ch_buf (chan_of k w0)) + sends_to k sched < turns k sched"
    using assms(2) by (simp add: w0_def)
  have ru: "{k. workers w0 k = Running} = UNIV"
    using assms(1) by (simp add: serving_iff w0_def)
  from exec_closing [OF cl en, of E] ru obtain w1 ks where
    h: "exec E sched w0 = Ok w1" "closing w1" "\<forall>k. workers w1 k \<noteq> Running"
      "lifecycle (events w1) = lifecycle (events w0) @ map EvDone ks"
      "distinct ks" "set ks = UNIV"
    by auto
  have g: "wg w1 = 0" using h(2,3) running_count_zero [of w1] by (simp add: closing_def)
  then have s3: "wg_Wait w1 = Ok w1" by (simp add: wg_Wait_def)
  have "open_chans w1" using h(2) by (simp add: closing_def)
  from teardown_open [OF this, of E] obtain err w' where
    t: "seq (close_metric Offset w1) (\<lambda>w.
        seq (close_metric Group w) (\<lambda>w.
        seq (close_metric TopicRate w) (\<lambda>w.
        seq (close_metric GroupRate w) (\<lambda>w.
        producer_Close E w)))) = Ok (err, w')"
      "events w' = events w1 @ teardown" "stopCh w' = stopCh w1" "wg w' = wg w1"
      "workers w' = workers w1" "\<forall>k. ch_closed (chan_of k w')"
    by blast
  have c: "Close E sched w = Ok (err, w')"
    using s1 h(1) s3 t(1) by (simp add: Close_def)
  have td: "lifecycle teardown = teardown" by (simp add: teardown_def)
  have l: "lifecycle (events w')
             = lifecycle (events w) @ EvClose SinkStop # map EvDone ks @ teardown"
    using t(2) h(4) td by (simp add: w0_def)
  have sc: "ch_closed (stopCh w')" using t(3) h(2) by (simp add: closing_def)
  show ?thesis using c sc t(6) h(3) t(5) t(4) g l h(5,6) by auto
qed

lemma Close_Ok_stop_closed:
  assumes "Close E sched w = Ok (err, w')"
  shows "ch_closed (stopCh w')"
proof -
  from assms obtain w1 w2 w3 w4 w5 w6 w7 where
    c: "close_stopCh w = Ok w1" "exec E sched w1 = Ok w2" "wg_Wait w2 = Ok w3"
      "close_metric Offset w3 = Ok w4" "close_metric Group w4 = Ok w5"
      "close_metric TopicRate w5 = Ok w6" "close_metric GroupRate w6 = Ok w7"
      "producer_Close E w7 = Ok (err, w')"
    unfolding Close_def seq_Ok by blast
  have "ch_closed (stopCh w1)"
    using c(1) by (auto simp: close_stopCh_def chan_close_def split: if_splits)
  then have "ch_closed (stopCh w2)" using exec_stop_closed [OF c(2)] by simp
  moreover have "w3 = w2" using c(3) by (simp add: wg_Wait_def split: if_splits)
  moreover have "stopCh w7 = stopCh w3"
    using c(4,5,6,7) close_metric_stopCh by metis
  moreover have "stopCh w' = stopCh w7"
    using c(8) by (auto simp: producer_Close_def split: prod.splits)
  ultimately show ?thesis by simp
qed

lemma Close_closed_panics:
  "ch_closed (stopCh w) \<Longrightarrow> Close E sched w = Panic ''close of closed channel''"
  by (simp add: Close_def close_stopCh_def chan_close_def)

lemma step_events_grow:
  assumes "step E a w = Ok w'"
  shows "\<exists>new. events w' = events w @ new"
proof (cases a)
  case (Select k pick)
  have m: "case_metrics E k w = Ok w' \<Longrightarrow> \<exists>new. events w' = events w @ new"
  proof -
    assume c: "case_metrics E k w = Ok w'"
    then have "\<exists>ms. events w' = snd (range_metrics E (topic w) ms (producer w, events w))"
      by (auto simp: case_metrics_def split: res.splits prod.splits intro: exI [of _ "[]"])
        (metis snd_conv)
    then obtain ms where "events w' = snd (range_metrics E (topic w) ms (producer w, events w))"
      by blast
    then show ?thesis using range_metrics_grows [of E "topic w" ms "producer w" "events w"] by simp
  qed
  have c: "case_stop k w = Ok w' \<Longrightarrow> \<exists>new. events w' = events w @ new"
    by (auto simp: case_stop_def wg_Done_def split: res.splits prod.splits if_splits)
  have "case_metrics E k w = Ok w' \<or> case_stop k w = Ok w'"
    using assms Select by (auto simp: worker_select_def split: if_splits select_case.splits)
  then show ?thesis using m c by blast
next
  case (Send k b)
  then show ?thesis
    using assms by (auto simp: engine_send_def split: res.splits)
qed

lemma exec_events_grow:
  "exec E sched w = Ok w' \<Longrightarrow> \<exists>new. events w' = events w @ new"
proof (induction sched arbitrary: w)
  case Nil
  then show ?case by simp
next
  case (Cons a sched)
  show ?case
  proof (cases "step E a w")
    case (Ok w1)
    then obtain n1 where n1: "events w1 = events w @ n1" using step_events_grow by blast
    obtain n2 where "events w' = events w1 @ n2"
      using Cons.IH [of w1] Cons.prems Ok by auto
    then show ?thesis using n1 by simp
  next
    case Blocked
    then show ?thesis using Cons.IH [of w] Cons.prems by simp
  next
    case (Panic x)
    then show ?thesis using Cons.prems by simp
  qed
qed

lemma Close_events_grow:
  assumes "Close E sched w = Ok (err, w')"
  shows "\<exists>new. events w' = events w @ new"
proof -
  from assms obtain w1 w2 w3 w4 w5 w6 w7 where
    c: "close_stopCh w = Ok w1" "exec E sched w1 = Ok w2" "wg_Wait w2 = Ok w3"
      "close_metric Offset w3 = Ok w4" "close_metric Group w4 = Ok w5"
      "close_metric TopicRate w5 = Ok w6" "close_metric GroupRate w6 = Ok w7"
      "producer_Close E w7 = Ok (err, w')"
    unfolding Close_def seq_Ok by blast
  have g: "close_metric k u = Ok v \<Longrightarrow> \<exists>new. events v = events u @ new" for k u v
    by (auto simp: close_metric_def split: res.splits)
  obtain n1 where n1: "events w1 = events w @ n1"
    using c(1) by (auto simp: close_stopCh_def split: res.splits)
  obtain n2 where n2: "events w2 = events w1 @ n2" using exec_events_grow [OF c(2)] by blast
  have n3: "w3 = w2" using c(3) by (simp add: wg_Wait_def split: if_splits)
  obtain n4 where n4: "events w4 = events w3 @ n4" using g [OF c(4)] by blast
  obtain n5 where n5: "events w5 = events w4 @ n5" using g [OF c(5)] by blast
  obtain n6 where n6: "events w6 = events w5 @ n6" using g [OF c(6)] by blast
  obtain n7 where n7: "events w7 = events w6 @ n7" using g [OF c(7)] by blast
  obtain n8 where n8: "events w' = events w7 @ n8"
    using c(8) by (auto simp: producer_Close_def split: prod.splits)
  show ?thesis using n1 n2 n3 n4 n5 n6 n7 n8 by simp
qed

section \<open>What a returned Close has done\<close>

lemma running_count_none: "running_count w = 0 \<Longrightarrow> workers w k \<noteq> Running"
  using running_count_pos [of w k] by auto

text \<open>
  Whatever the schedule, after the stop channel is closed the workers only go from running
  to exited, and \<open>ks\<close> lists those that exited, in order.
\<close>

lemma exec_closing_any:
  assumes "closing w"
  shows "\<exists>w' ks. exec E sched w = Ok w' \<and> closing w'
           \<and> lifecycle (events w') = lifecycle (events w) @ map EvDone ks
           \<and> distinct ks
           \<and> set ks = {k. workers w k = Running \<and> workers w' k \<noteq> Running}
           \<and> (\<forall>k. workers w' k = Running \<longrightarrow> workers w k = Running)"
  using assms
proof (induction sched arbitrary: w)
  case Nil
  then show ?case by simp
next
  case (Cons a sched)
  note cl = Cons.prems
  have after: "\<exists>w' ks. exec E (a # sched) w = Ok w' \<and> closing w'
           \<and> lifecycle (events w') = lifecycle (events w) @ map EvDone ks
           \<and> distinct ks
           \<and> set ks = {k. workers w k = Running \<and> workers w' k \<noteq> Running}
           \<and> (\<forall>k. workers w' k = Running \<longrightarrow> workers w k = Running)"
    if st: "step E a w = Ok w1" and cl1: "closing w1" and wk: "workers w1 = workers w"
      and lc: "lifecycle (events w1) = lifecycle (events w)" for w1
  proof -
    from Cons.IH [OF cl1] obtain w' ks where
      r: "exec E sched w1 = Ok w'" "closing w'"
        "lifecycle (events w') = lifecycle (events w1) @ map EvDone ks" "distinct ks"
        "set ks = {k. workers w1 k = Running \<and> workers w' k \<noteq> Running}"
        "\<forall>k. workers w' k = Running \<longrightarrow> workers w1 k = Running"
      by blast
    have "exec E (a # sched) w = Ok w'" using st r(1) by simp
    then show ?thesis using r(2,3,4,5,6) wk lc by auto
  qed
  have stay: "\<exists>w' ks. exec E (a # sched) w = Ok w' \<and> closing w'
           \<and> lifecycle (events w') = lifecycle (events w) @ map EvDone ks
           \<and> distinct ks
           \<and> set ks = {k. workers w k = Running \<and> workers w' k \<noteq> Running}
           \<and> (\<forall>k. workers w' k = Running \<longrightarrow> workers w k = Running)"
    if st: "step E a w = Blocked"
    using Cons.IH [OF cl] st by simp
  show ?case
  proof (cases a)
    case (Select k pick)
    show ?thesis
    proof (cases "workers w k = Running")
      case False
      then have "step E a w = Blocked" using Select by (simp add: worker_select_def)
      then show ?thesis by (rule stay)
    next
      case True
      show ?thesis
      proof (cases "ch_buf (chan_of k w) \<noteq> [] \<and> pick = CaseMetrics")
        case True
        then obtain b rest where buf: "ch_buf (chan_of k w) = b # rest"
          by (cases "ch_buf (chan_of k w)") auto
        define w1 where "w1 = (set_chan k ((chan_of k w)\<lparr>ch_buf := rest\<rparr>) w)
          \<lparr>producer := fst (range_metrics E (topic w) b (producer w, events w)),
           events := snd (range_metrics E (topic w) b (producer w, events w))\<rparr>"
        have st: "step E a w = Ok w1"
          using select_metrics [OF \<open>workers w k = Running\<close> buf, of pick E] True Select
          by (simp add: w1_def)
        have cl1: "closing w1" unfolding w1_def using cl by (rule closing_after_metrics)
        have wk: "workers w1 = workers w" by (simp add: w1_def)
        have lc: "lifecycle (events w1) = lifecycle (events w)"
          by (simp add: w1_def range_metrics_lifecycle)
        from st cl1 wk lc show ?thesis by (rule after)
      next
        case False
        define w1 where "w1 = w\<lparr>wg := wg w - 1, workers := (workers w)(k := Exited),
          events := events w @ [LogInfo (stop_msg k), EvDone k]\<rparr>"
        have "pick = CaseStop \<or> ch_buf (chan_of k w) = []"
          using False by (cases pick) auto
        then have st: "step E a w = Ok w1"
          using select_stop [OF cl \<open>workers w k = Running\<close>, of pick E] Select
          by (simp add: w1_def)
        have cl1: "closing w1"
          unfolding w1_def using cl \<open>workers w k = Running\<close> by (rule closing_after_stop)
        have wk: "workers w1 = (workers w)(k := Exited)" by (simp add: w1_def)
        have lc: "lifecycle (events w1) = lifecycle (events w) @ [EvDone k]"
          by (simp add: w1_def)
        from Cons.IH [OF cl1] obtain w' ks where
          r: "exec E sched w1 = Ok w'" "closing w'"
            "lifecycle (events w') = lifecycle (events w1) @ map EvDone ks" "distinct ks"
            "set ks = {j. workers w1 j = Running \<and> workers w' j \<noteq> Running}"
            "\<forall>j. workers w' j = Running \<longrightarrow> workers w1 j = Running"
          by blast
        have nk: "workers w' k \<noteq> Running" using r(6) wk by auto
        have d: "distinct (k # ks)" using r(4,5) wk by simp
        have s: "set (k # ks) = {j. workers w j = Running \<and> workers w' j \<noteq> Running}"
          using r(5) wk \<open>workers w k = Running\<close> nk by auto
        have l: "lifecycle (events w') = lifecycle (events w) @ map EvDone (k # ks)"
          using r(3) lc by simp
        have m: "\<forall>j. workers w' j = Running \<longrightarrow> workers w j = Running"
          using r(6) wk by (auto split: if_splits)
        have "exec E (a # sched) w = Ok w'" using st r(1) by simp
        then show ?thesis using r(2) d s l m by blast
      qed
    qed
  next
    case (Send k b)
    have o: "\<not> ch_closed (chan_of k w)"
      using cl by (simp add: closing_def open_chans_iff)
    show ?thesis
    proof (cases "length (ch_buf (chan_of k w)) < ch_cap (chan_of k w)")
      case False
      then have "step E a w = Blocked" using Send send_open [OF o, of b] by simp
      then show ?thesis by (rule stay)
    next
      case True
      define w1 where "w1 = (set_chan k ((chan_of k w)\<lparr>ch_buf := ch_buf (chan_of k w) @ [b]\<rparr>) w)
                \<lparr>events := events w @ [EvEnqueue k b]\<rparr>"
      have st: "step E a w = Ok w1"
        using Send send_open [OF o, of b] True by (simp add: w1_def)
      have cl1: "closing w1" unfolding w1_def using cl by (rule closing_after_send)
      have wk: "workers w1 = workers w" by (simp add: w1_def)
      have lc: "lifecycle (events w1) = lifecycle (events w)" by (simp add: w1_def)
      from st cl1 wk lc show ?thesis by (rule after)
    qed
  qed
qed

lemma teardown_exact:
  assumes "open_chans w"
  shows "\<exists>err w'.
    seq (close_metric Offset w) (\<lambda>w.
    seq (close_metric Group w) (\<lambda>w.
    seq (close_metric TopicRate w) (\<lambda>w.
    seq (close_metric GroupRate w) (\<lambda>w.
    producer_Close E w)))) = Ok (err, w')
    \<and> ProducerClose E (producer w) = (err, producer w')
    \<and> events w' = events w @ teardown \<and> stopCh w' = stopCh w \<and> wg w' = wg w
    \<and> workers w' = workers w
    \<and> (\<forall>k. ch_closed (chan_of k w') \<and> ch_buf (chan_of k w') = ch_buf (chan_of k w))"
proof -
  have o: "\<not> ch_closed (offsetChan w)" "\<not> ch_closed (groupChan w)"
    "\<not> ch_closed (topicRateChan w)" "\<not> ch_closed (groupRateChan w)"
    using assms by (simp_all add: open_chans_def kinds_def)
  have all: "(\<forall>k. P k) = (P Group \<and> P Offset \<and> P GroupRate \<and> P TopicRate)" for P
    by (metis kind.exhaust)
  show ?thesis
    using o
    by (simp add: close_metric_def chan_close_def producer_Close_def teardown_def all
        split: prod.splits)
qed

text \<open>
  \<^verbatim>\<open>Close\<close> on a sink in service never panics. It is blocked exactly when a worker is
  still running at the end of the schedule, and when it returns it has done its steps
  in the order of the source.
\<close>

lemma Close_serving_cases:
  assumes "serving w"
  shows "\<exists>w1 w2 ks. close_stopCh w = Ok w1 \<and> exec E sched w1 = Ok w2
      \<and> (\<forall>k. \<not> ch_closed (chan_of k w2))
      \<and> lifecycle (events w2) = lifecycle (events w) @ EvClose SinkStop # map EvDone ks
      \<and> distinct ks \<and> set ks = {k. workers w2 k \<noteq> Running}
      \<and> ((\<exists>k. workers w2 k = Running) \<longrightarrow> Close E sched w = Blocked)
      \<and> ((\<forall>k. workers w2 k \<noteq> Running) \<longrightarrow>
           wg w2 = 0 \<and>
           (\<exists>err w'. Close E sched w = Ok (err, w')
              \<and> ProducerClose E (producer w2) = (err, producer w')
              \<and> events w' = events w2 @ teardown
              \<and> ch_closed (stopCh w') \<and> wg w' = 0 \<and> workers w' = workers w2
              \<and> (\<forall>k. ch_closed (chan_of k w')
                       \<and> ch_buf (chan_of k w') = ch_buf (chan_of k w2))))"
proof -
  define w0 where "w0 = w\<lparr>stopCh := (stopCh w)\<lparr>ch_closed := True\<rparr>,
    events := events w @ [EvClose SinkStop]\<rparr>"
  have s1: "close_stopCh w = Ok w0"
    using assms by (simp add: close_stopCh_def chan_close_def serving_iff w0_def)
  have rc: "running_count w0 = 4"
    using assms by (simp add: running_count_def serving_iff w0_def)
  have cl: "closing w0"
    using assms rc by (simp add: closing_def serving_iff open_chans_iff w0_def)
  have ru: "workers w0 k = Running" for k
    using assms by (simp add: serving_iff w0_def)
  from exec_closing_any [OF cl, of E sched] obtain w2 ks where
    h: "exec E sched w0 = Ok w2" "closing w2"
      "lifecycle (events w2) = lifecycle (events w0) @ map EvDone ks" "distinct ks"
      "set ks = {k. workers w0 k = Running \<and> workers w2 k \<noteq> Running}"
    by blast
  have op: "open_chans w2" and g: "wg w2 = running_count w2" and sc: "ch_closed (stopCh w2)"
    using h(2) by (simp_all add: closing_def)
  have a1: "\<forall>k. \<not> ch_closed (chan_of k w2)" using op by (simp add: open_chans_iff)
  have a2: "lifecycle (events w2) = lifecycle (events w) @ EvClose SinkStop # map EvDone ks"
    using h(3) by (simp add: w0_def)
  have a3: "set ks = {k. workers w2 k \<noteq> Running}" using h(5) ru by simp
  have c: "Close E sched w =
      seq (wg_Wait w2) (\<lambda>w.
      seq (close_metric Offset w) (\<lambda>w.
      seq (close_metric Group w) (\<lambda>w.
      seq (close_metric TopicRate w) (\<lambda>w.
      seq (close_metric GroupRate w) (\<lambda>w.
      producer_Close E w)))))"
    using s1 h(1) by (simp add: Close_def)
  have a4: "(\<exists>k. workers w2 k = Running) \<longrightarrow> Close E sched w = Blocked"
  proof
    assume "\<exists>k. workers w2 k = Running"
    then obtain k where "workers w2 k = Running" by blast
    then have "wg w2 \<noteq> 0" using running_count_pos [of w2 k] g by simp
    then show "Close E sched w = Blocked" using c by (simp add: wg_Wait_def)
  qed
  have a5: "(\<forall>k. workers w2 k \<noteq> Running) \<longrightarrow>
           wg w2 = 0 \<and>
           (\<exists>err w'. Close E sched w = Ok (err, w')
              \<and> ProducerClose E (producer w2) = (err, producer w')
              \<and> events w' = events w2 @ teardown
              \<and> ch_closed (stopCh w') \<and> wg w' = 0 \<and> workers w' = workers w2
              \<and> (\<forall>k. ch_closed (chan_of k w')
                       \<and> ch_buf (chan_of k w') = ch_buf (chan_of k w2)))"
  proof
    assume "\<forall>k. workers w2 k \<noteq> Running"
    then have z: "wg w2 = 0" using running_count_zero [of w2] g by simp
    from teardown_exact [OF op, of E] obtain err w' where
      t: "seq (close_metric Offset w2) (\<lambda>w.
          seq (close_metric Group w) (\<lambda>w.
          seq (close_metric TopicRate w) (\<lambda>w.
          seq (close_metric GroupRate w) (\<lambda>w.
          producer_Close E w)))) = Ok (err, w')"
        "ProducerClose E (producer w2) = (err, producer w')"
        "events w' = events w2 @ teardown" "stopCh w' = stopCh w2" "wg w' = wg w2"
        "workers w' = workers w2"
        "\<forall>k. ch_closed (chan_of k w') \<and> ch_buf (chan_of k w') = ch_buf (chan_of k w2)"
      by blast
    have "Close E sched w = Ok (err, w')" using c z t(1) by (simp add: wg_Wait_def)
    then show "wg w2 = 0 \<and>
           (\<exists>err w'. Close E sched w = Ok (err, w')
              \<and> ProducerClose E (producer w2) = (err, producer w')
              \<and> events w' = events w2 @ teardown
              \<and> ch_closed (stopCh w') \<and> wg w' = 0 \<and> workers w' = workers w2
              \<and> (\<forall>k. ch_closed (chan_of k w')
                       \<and> ch_buf (chan_of k w') = ch_buf (chan_of k w2)))"
      using z t(2,3,4,5,6,7) sc by auto
  qed
  show ?thesis using s1 h(1) a1 a2 h(4) a3 a4 a5 by blast
qed

lemma Close_serving_returned:
  assumes "serving w" and "Close E sched w = Ok (err, w')"
  shows "\<exists>w1 w2 ks. close_stopCh w = Ok w1 \<and> exec E sched w1 = Ok w2
      \<and> (\<forall>k. workers w2 k \<noteq> Running) \<and> wg w2 = 0 \<and> (\<forall>k. \<not> ch_closed (chan_of k w2))
      \<and> ProducerClose E (producer w2) = (err, producer w')
      \<and> events w' = events w2 @ teardown
      \<and> ch_closed (stopCh w') \<and> wg w' = 0 \<and> (\<forall>k. workers w' k \<noteq> Running)
      \<and> (\<forall>k. ch_closed (chan_of k w') \<and> ch_buf (chan_of k w') = ch_buf (chan_of k w2))
      \<and> lifecycle (events w')
          = lifecycle (events w) @ EvClose SinkStop # map EvDone ks @ teardown
      \<and> distinct ks \<and> set ks = UNIV"
proof -
  from Close_serving_cases [OF assms(1), of E sched] obtain w1 w2 ks where
    h: "close_stopCh w = Ok w1" "exec E sched w1 = Ok w2"
      "\<forall>k. \<not> ch_closed (chan_of k w2)"
      "lifecycle (events w2) = lifecycle (events w) @ EvClose SinkStop # map EvDone ks"
      "distinct ks" "set ks = {k. workers w2 k \<noteq> Running}"
      "(\<exists>k. workers w2 k = Running) \<longrightarrow> Close E sched w = Blocked"
      "(\<forall>k. workers w2 k \<noteq> Running) \<longrightarrow>
           wg w2 = 0 \<and>
           (\<exists>err w'. Close E sched w = Ok (err, w')
              \<and> ProducerClose E (producer w2) = (err, producer w')
              \<and> events w' = events w2 @ teardown
              \<and> ch_closed (stopCh w') \<and> wg w' = 0 \<and> workers w' = workers w2
              \<and> (\<forall>k. ch_closed (chan_of k w')
                       \<and> ch_buf (chan_of k w') = ch_buf (chan_of k w2)))"
    by blast
  have nr: "\<forall>k. workers w2 k \<noteq> Running" using h(7) assms(2) by auto
  with h(8) assms(2) have
    r: "wg w2 = 0" "ProducerClose E (producer w2) = (err, producer w')"
      "events w' = events w2 @ teardown" "ch_closed (stopCh w')" "wg w' = 0"
      "workers w' = workers w2"
      "\<forall>k. ch_closed (chan_of k w') \<and> ch_buf (chan_of k w') = ch_buf (chan_of k w2)"
    by auto
  have td: "lifecycle teardown = teardown" by (simp add: teardown_def)
  have l: "lifecycle (events w')
          = lifecycle (events w) @ EvClose SinkStop # map EvDone ks @ teardown"
    using r(3) h(4) td by simp
  have u: "set ks = UNIV" using h(6) nr by auto
  have nr': "\<forall>k. workers w' k \<noteq> Running" using nr r(6) by simp
  show ?thesis using h(1,2) nr r(1) h(3) r(2,3,4,5) nr' r(7) l h(5) u by blast
qed

section \<open>The orchestrator\<close>

lemma fair_iff:
  "fair earlier sched w
     = (\<forall>k. length (ch_buf (chan_of k w)) + sends_to k (earlier @ sched) < turns k sched)"
  by (simp add: fair_def list_all_iff kinds_set)

lemma signal_handler_fields [simp]:
  "chan_of k (signal_handler sig w) = chan_of k w"
  "lifecycle (events (signal_handler sig w))
     = lifecycle (events w) @ [EvSignal sig, EvClose SourceStop]"
  by (simp_all add: signal_handler_def)

lemma serving_signal_handler: "serving w \<Longrightarrow> serving (signal_handler sig w)"
  by (simp add: signal_handler_def serving_log)

lemma deferred_source_Close_fields [simp]:
  "chan_of k (deferred_source_Close r w) = chan_of k w"
  "lifecycle (events (deferred_source_Close r w)) = lifecycle (events w) @ [EvSourceClose]"
  by (simp_all add: deferred_source_Close_def split: option.splits)

lemma serving_deferred_source_Close: "serving w \<Longrightarrow> serving (deferred_source_Close r w)"
  by (simp add: deferred_source_Close_def serving_log split: option.splits)

lemma deferred_sink_Close_serving:
  assumes "serving w"
    and "\<forall>k. length (ch_buf (chan_of k w)) + sends_to k sched < turns k sched"
  shows "\<exists>evs ks new. deferred_sink_Close E sched w = Ok evs
           \<and> lifecycle evs = lifecycle (events w) @ EvClose SinkStop # map EvDone ks @ teardown
           \<and> distinct ks \<and> set ks = UNIV \<and> evs = events w @ new"
proof -
  from Close_serving [OF assms, of E] obtain err w' ks where
    c: "Close E sched w = Ok (err, w')"
      "lifecycle (events w') = lifecycle (events w) @ EvClose SinkStop # map EvDone ks @ teardown"
      "distinct ks" "set ks = UNIV"
    by blast
  obtain new where n: "events w' = events w @ new" using Close_events_grow [OF c(1)] by blast
  show ?thesis
  proof (cases err)
    case None
    then have "deferred_sink_Close E sched w = Ok (events w')"
      using c(1) by (simp add: deferred_sink_Close_def)
    then show ?thesis using c(2,3,4) n by blast
  next
    case (Some e)
    then have d: "deferred_sink_Close E sched w = Ok (events w' @ [LogError e])"
      using c(1) by (simp add: deferred_sink_Close_def)
    have l: "lifecycle (events w' @ [LogError e])
        = lifecycle (events w) @ EvClose SinkStop # map EvDone ks @ teardown"
      using c(2) by simp
    have "events w' @ [LogError e] = events w @ (new @ [LogError e])" using n by simp
    then show ?thesis using d l c(3,4) by blast
  qed
qed

lemma main_unknown:
  "metrics_New reg name = Inl err \<Longrightarrow> main E reg name sc = Ok [LogError err]"
  by (simp add: main_def)

lemma main_source_failure:
  assumes "metrics_New reg name = Inr sink" "serving sink" "new_source sc = Some err"
    and "fair [] (closing_sched sc) sink"
  shows "\<exists>evs ks. main E reg name sc = Ok evs \<and> LogError err \<in> set evs
           \<and> lifecycle evs = lifecycle (events sink)
               @ [EvNewKafkaSource, EvClose SinkStop] @ map EvDone ks @ teardown
           \<and> distinct ks \<and> set ks = UNIV"
proof -
  define w where "w = log [EvNewKafkaSource, LogError err] sink"
  have m: "main E reg name sc = deferred_sink_Close E (closing_sched sc) w"
    using assms(1,3) by (simp add: main_def w_def)
  have sv: "serving w" unfolding w_def using assms(2) by (rule serving_log)
  have en: "\<forall>k. length (ch_buf (chan_of k w)) + sends_to k (closing_sched sc)
              < turns k (closing_sched sc)"
    using assms(4) by (simp add: fair_iff w_def)
  from deferred_sink_Close_serving [OF sv en, of E] obtain evs ks new where
    d: "deferred_sink_Close E (closing_sched sc) w = Ok evs"
      "lifecycle evs = lifecycle (events w) @ EvClose SinkStop # map EvDone ks @ teardown"
      "distinct ks" "set ks = UNIV" "evs = events w @ new"
    by blast
  have "LogError err \<in> set evs" using d(5) by (simp add: w_def)
  moreover have "lifecycle evs = lifecycle (events sink)
               @ [EvNewKafkaSource, EvClose SinkStop] @ map EvDone ks @ teardown"
    using d(2) by (simp add: w_def)
  ultimately show ?thesis using m d(1,3,4) by auto
qed

lemma main_shutdown:
  assumes "metrics_New reg name = Inr sink" "serving sink" "new_source sc = None"
    and "signal sc = Some sig"
    and "fair (before_signal sc @ last_tick sc) (closing_sched sc) sink"
  shows "\<exists>evs ks. main E reg name sc = Ok evs
           \<and> lifecycle evs = lifecycle (events sink)
               @ [EvNewKafkaSource, EvSourceRun, EvSignal sig, EvClose SourceStop, EvSourceWait,
                  EvSourceClose, EvClose SinkStop] @ map EvDone ks @ teardown
           \<and> distinct ks \<and> set ks = UNIV"
proof -
  define w1 where "w1 = log [EvNewKafkaSource, EvSourceRun] sink"
  have sv1: "serving w1" unfolding w1_def using assms(2) by (rule serving_log)
  from exec_serving [OF sv1, of E "before_signal sc"] obtain w2 where
    e2: "exec E (before_signal sc) w1 = Ok w2" "serving w2"
      "lifecycle (events w2) = lifecycle (events w1)"
      "\<forall>k. length (ch_buf (chan_of k w2))
              \<le> length (ch_buf (chan_of k w1)) + sends_to k (before_signal sc)"
    by blast
  define w3 where "w3 = signal_handler sig w2"
  have sv3: "serving w3" unfolding w3_def using e2(2) by (rule serving_signal_handler)
  from exec_serving [OF sv3, of E "last_tick sc"] obtain w4 where
    e4: "exec E (last_tick sc) w3 = Ok w4" "serving w4"
      "lifecycle (events w4) = lifecycle (events w3)"
      "\<forall>k. length (ch_buf (chan_of k w4))
              \<le> length (ch_buf (chan_of k w3)) + sends_to k (last_tick sc)"
    by blast
  define w6 where
    "w6 = deferred_source_Close (source_close sc) (log [EvSinkWait] (log [EvSourceWait] w4))"
  have sv6: "serving w6"
    unfolding w6_def using e4(2) by (intro serving_deferred_source_Close serving_log)
  have m: "main E reg name sc = deferred_sink_Close E (closing_sched sc) w6"
    using assms(1,3,4) e2(1) e4(1) by (simp add: main_def w1_def w3_def w6_def Wait_def)
  have en: "\<forall>k. length (ch_buf (chan_of k w6)) + sends_to k (closing_sched sc)
              < turns k (closing_sched sc)"
  proof
    fix k
    have "length (ch_buf (chan_of k w6)) = length (ch_buf (chan_of k w4))"
      by (simp add: w6_def)
    also have "\<dots> \<le> length (ch_buf (chan_of k w2)) + sends_to k (last_tick sc)"
      using e4(4) [rule_format, of k] by (simp add: w3_def)
    also have "\<dots> \<le> length (ch_buf (chan_of k sink)) + sends_to k (before_signal sc)
                   + sends_to k (last_tick sc)"
      using e2(4) [rule_format, of k] by (simp add: w1_def)
    finally show "length (ch_buf (chan_of k w6)) + sends_to k (closing_sched sc)
              < turns k (closing_sched sc)"
      using assms(5) [unfolded fair_iff, rule_format, of k] by (simp add: sends_to_append)
  qed
  from deferred_sink_Close_serving [OF sv6 en, of E] obtain evs ks new where
    d: "deferred_sink_Close E (closing_sched sc) w6 = Ok evs"
      "lifecycle evs = lifecycle (events w6) @ EvClose SinkStop # map EvDone ks @ teardown"
      "distinct ks" "set ks = UNIV"
    by blast
  have "lifecycle (events w6) = lifecycle (events sink)
      @ [EvNewKafkaSource, EvSourceRun, EvSignal sig, EvClose SourceStop, EvSourceWait,
         EvSourceClose]"
    using e2(3) e4(3) by (simp add: w6_def w3_def w1_def)
  then have "lifecycle evs = lifecycle (events sink)
               @ [EvNewKafkaSource, EvSourceRun, EvSignal sig, EvClose SourceStop, EvSourceWait,
                  EvSourceClose, EvClose SinkStop] @ map EvDone ks @ teardown"
    using d(2) by simp
  then show ?thesis using m d(1,3,4) by auto
qed

lemma deferred_sink_Close_returned:
  assumes "serving w" and "deferred_sink_Close E sched w = Ok evs"
  shows "\<exists>ks. lifecycle evs = lifecycle (events w) @ EvClose SinkStop # map EvDone ks @ teardown
           \<and> distinct ks \<and> set ks = UNIV"
proof -
  from assms(2) obtain r where
    c: "Close E sched w = Ok r"
      "(case r of (None, w') \<Rightarrow> Ok (events w')
         | (Some err, w') \<Rightarrow> Ok (events (log [LogError err] w'))) = Ok evs"
    unfolding deferred_sink_Close_def seq_Ok by blast
  obtain err w' where r: "r = (err, w')" by (cases r)
  from Close_serving_returned [OF assms(1) c(1) [unfolded r]] obtain ks where
    h: "lifecycle (events w') = lifecycle (events w) @ EvClose SinkStop # map EvDone ks @ teardown"
      "distinct ks" "set ks = UNIV"
    by blast
  have "lifecycle evs = lifecycle (events w')"
    using c(2) r by (cases err) auto
  then show ?thesis using h by auto
qed

lemma main_returned:
  assumes "metrics_New reg name = Inr sink" "serving sink" "new_source sc = None"
  shows "(signal sc = None \<longrightarrow> main E reg name sc = Blocked)
       \<and> (\<forall>evs. main E reg name sc = Ok evs \<longrightarrow>
            (\<exists>sig ks. signal sc = Some sig
               \<and> lifecycle evs = lifecycle (events sink)
                   @ [EvNewKafkaSource, EvSourceRun, EvSignal sig, EvClose SourceStop,
                      EvSourceWait, EvSourceClose, EvClose SinkStop]
                   @ map EvDone ks @ teardown
               \<and> distinct ks \<and> set ks = UNIV))"
proof -
  define w1 where "w1 = log [EvNewKafkaSource, EvSourceRun] sink"
  have sv1: "serving w1" unfolding w1_def using assms(2) by (rule serving_log)
  from exec_serving [OF sv1, of E "before_signal sc"] obtain w2 where
    e2: "exec E (before_signal sc) w1 = Ok w2" "serving w2"
      "lifecycle (events w2) = lifecycle (events w1)"
    by blast
  have none: "signal sc = None \<longrightarrow> main E reg name sc = Blocked"
    using assms(1,3) e2(1) by (simp add: main_def w1_def)
  have some: "\<exists>sig ks. signal sc = Some sig
               \<and> lifecycle evs = lifecycle (events sink)
                   @ [EvNewKafkaSource, EvSourceRun, EvSignal sig, EvClose SourceStop,
                      EvSourceWait, EvSourceClose, EvClose SinkStop]
                   @ map EvDone ks @ teardown
               \<and> distinct ks \<and> set ks = UNIV"
    if m: "main E reg name sc = Ok evs" for evs
  proof -
    obtain sig where sg: "signal sc = Some sig"
      using none m by (cases "signal sc") auto
    define w3 where "w3 = signal_handler sig w2"
    have sv3: "serving w3" unfolding w3_def using e2(2) by (rule serving_signal_handler)
    from exec_serving [OF sv3, of E "last_tick sc"] obtain w4 where
      e4: "exec E (last_tick sc) w3 = Ok w4" "serving w4"
        "lifecycle (events w4) = lifecycle (events w3)"
      by blast
    define w6 where
      "w6 = deferred_source_Close (source_close sc) (log [EvSinkWait] (log [EvSourceWait] w4))"
    have sv6: "serving w6"
      unfolding w6_def using e4(2) by (intro serving_deferred_source_Close serving_log)
    have "main E reg name sc = deferred_sink_Close E (closing_sched sc) w6"
      using assms(1,3) sg e2(1) e4(1) by (simp add: main_def w1_def w3_def w6_def Wait_def)
    then have d: "deferred_sink_Close E (closing_sched sc) w6 = Ok evs" using m by simp
    from deferred_sink_Close_returned [OF sv6 d] obtain ks where
      k: "lifecycle evs = lifecycle (events w6) @ EvClose SinkStop # map EvDone ks @ teardown"
        "distinct ks" "set ks = UNIV"
      by blast
    have "lifecycle (events w6) = lifecycle (events sink)
        @ [EvNewKafkaSource, EvSourceRun, EvSignal sig, EvClose SourceStop, EvSourceWait,
           EvSourceClose]"
      using e2(3) e4(3) by (simp add: w6_def w3_def w1_def)
    then have "lifecycle evs = lifecycle (events sink)
                   @ [EvNewKafkaSource, EvSourceRun, EvSignal sig, EvClose SourceStop,
                      EvSourceWait, EvSourceClose, EvClose SinkStop]
                   @ map EvDone ks @ teardown"
      using k(1) by simp
    then show ?thesis using sg k(2,3) by blast
  qed
  show ?thesis using none some by blast
qed

lemma range_metrics_append:
  "range_metrics E tp (xs @ ys) st = range_metrics E tp ys (range_metrics E tp xs st)"
  by (induction xs arbitrary: st) simp_all

lemma range_metrics_snoc:
  "range_metrics E tp (xs @ [m]) st = export_metric E tp m (range_metrics E tp xs st)"
  by (simp add: range_metrics_append)

section \<open>The concrete run\<close>

lemmas model_defs = demo_batch_def Close_def close_stopCh_def chan_close_def all_stop_def
  worker_select_def
  case_stop_def case_metrics_def chan_recv_def wg_Done_def wg_Wait_def close_metric_def
  producer_Close_def demo_env_def demo_sink_def new_sink_def run_def go_worker_def make_chan_def
  engine_send_def chan_send_def export_metric_def log_def

lemma new_sink_serving: "serving (new_sink p tp)"
  by (simp add: serving_def new_sink_def run_def go_worker_def make_chan_def open_chans_def
      kinds_def)

lemma new_sink_chans:
  "ch_cap (chan_of k (new_sink p tp)) = 1024" "ch_buf (chan_of k (new_sink p tp)) = []"
  by (cases k; simp add: new_sink_def run_def go_worker_def make_chan_def)+

lemma fill_channel:
  assumes "serving w" "length (ch_buf (chan_of k w)) + n \<le> ch_cap (chan_of k w)"
  shows "\<exists>w'. exec E (replicate n (Send k b)) w = Ok w' \<and> serving w'
           \<and> ch_cap (chan_of k w') = ch_cap (chan_of k w)
           \<and> length (ch_buf (chan_of k w')) = length (ch_buf (chan_of k w)) + n"
  using assms
proof (induction n arbitrary: w)
  case 0
  then show ?case by simp
next
  case (Suc n)
  define w1 where "w1 = (set_chan k ((chan_of k w)\<lparr>ch_buf := ch_buf (chan_of k w) @ [b]\<rparr>) w)
                \<lparr>events := events w @ [EvEnqueue k b]\<rparr>"
  have o: "\<not> ch_closed (chan_of k w)" using Suc.prems(1) by (simp add: serving_iff)
  have st: "step E (Send k b) w = Ok w1"
    using send_open [OF o, of b] Suc.prems(2) by (simp add: w1_def)
  have sv1: "serving w1" unfolding w1_def using Suc.prems(1) by (rule serving_after_send)
  have b1: "length (ch_buf (chan_of k w1)) + n \<le> ch_cap (chan_of k w1)"
    using Suc.prems(2) by (simp add: w1_def)
  from Suc.IH [OF sv1 b1] obtain w' where
    "exec E (replicate n (Send k b)) w1 = Ok w'" "serving w'"
    "ch_cap (chan_of k w') = ch_cap (chan_of k w1)"
    "length (ch_buf (chan_of k w')) = length (ch_buf (chan_of k w1)) + n"
    by blast
  then show ?case using st by (simp add: w1_def)
qed

lemma kind_all: "(\<forall>k. P k) = (P Group \<and> P Offset \<and> P GroupRate \<and> P TopicRate)"
  by (metis kind.exhaust)

lemmas main_defs = main_def metrics_New_def demo_registry_def RegisterSink_def NewKafkaSink_def
  demo_scenario_def signal_handler_def deferred_source_Close_def deferred_sink_Close_def Wait_def

lemma demo_sink_serving: "serving demo_sink"
  unfolding demo_sink_def by (rule new_sink_serving)

lemma demo_buffered_serving: "serving demo_buffered"
  by (simp add: serving_def demo_buffered_def model_defs open_chans_def kinds_def)

lemma demo_stopping_closing: "closing demo_stopping"
  by (simp add: closing_def demo_stopping_def demo_buffered_def model_defs open_chans_def
      kinds_def running_count_def)

lemma demo_registry_kafka: "metrics_New demo_registry ''kafka'' = Inr demo_sink"
  by (simp add: metrics_New_def demo_registry_def RegisterSink_def NewKafkaSink_def demo_sink_def)

lemma demo_registry_nosuch: "demo_registry ''nosuch'' = None"
  by (simp add: demo_registry_def RegisterSink_def)

section \<open>The claims\<close>

text \<open>
  C1, as the specification states it: once the stop signal is closed, a worker drains
  its channel before it exits, so that no buffered record is lost. The code does not:
  with the stop channel closed the stop case of the \<^verbatim>\<open>select\<close> can always proceed, and
  a worker that takes it returns at once. In the run below the source has sent one batch
  into the group channel, \<^verbatim>\<open>Close\<close> is called, and every worker takes the stop case in
  its first iteration: \<^verbatim>\<open>Close\<close> returns, the batch is still in the closed channel and
  the producer was never called.
\<close>

theorem worker_exits_leaving_batch:
  "Close demo_env all_stop demo_buffered = Ok (None, demo_abandoned)"
  by (simp add: model_defs demo_buffered_def demo_abandoned_def fun_eq_iff kind_all)

text \<open>
  C1, amended: once the stop signal is closed, every iteration of a running worker can
  take the stop case, whatever its channel holds; the worker then exits, its channel is
  left as it was and nothing is exported. An iteration that takes the receive case
  exports the oldest buffered batch in full and the worker goes on. Only when the
  channel is empty is the stop case the one possible.
\<close>

theorem stop_case_may_abandon_buffer:
  assumes "closing w" and "workers w k = Running"
  shows "(\<exists>w'. worker_select E k CaseStop w = Ok w' \<and> workers w' k = Exited
            \<and> chan_of k w' = chan_of k w \<and> sends_of (events w') = sends_of (events w))
       \<and> (\<forall>b rest. ch_buf (chan_of k w) = b # rest \<longrightarrow>
            (\<exists>w'. worker_select E k CaseMetrics w = Ok w' \<and> workers w' k = Running
               \<and> ch_buf (chan_of k w') = rest
               \<and> sends_of (events w') = sends_of (events w) @ attempts E (topic w) b))
       \<and> (ch_buf (chan_of k w) = [] \<longrightarrow>
            worker_select E k CaseMetrics w = worker_select E k CaseStop w)"
proof (intro conjI allI impI)
  show "\<exists>w'. worker_select E k CaseStop w = Ok w' \<and> workers w' k = Exited
            \<and> chan_of k w' = chan_of k w \<and> sends_of (events w') = sends_of (events w)"
    using select_stop [OF assms, of CaseStop E] by simp
next
  fix b rest
  assume buf: "ch_buf (chan_of k w) = b # rest"
  show "\<exists>w'. worker_select E k CaseMetrics w = Ok w' \<and> workers w' k = Running
               \<and> ch_buf (chan_of k w') = rest
               \<and> sends_of (events w') = sends_of (events w) @ attempts E (topic w) b"
    using select_metrics [OF assms(2) buf, of CaseMetrics E] assms(2)
    by (simp add: range_metrics_sends)
next
  assume "ch_buf (chan_of k w) = []"
  then show "worker_select E k CaseMetrics w = worker_select E k CaseStop w"
    using select_stop [OF assms, of CaseMetrics E] select_stop [OF assms, of CaseStop E]
    by simp
qed

theorem stop_case_may_abandon_buffer_witness:
  "closing demo_stopping \<and> workers demo_stopping Group = Running
   \<and> (\<exists>w'. worker_select demo_env Group CaseStop demo_stopping = Ok w'
         \<and> workers w' Group = Exited \<and> ch_buf (chan_of Group w') = [demo_batch]
         \<and> sends_of (events w') = [])
   \<and> (\<exists>w'. worker_select demo_env Group CaseMetrics demo_stopping = Ok w'
         \<and> workers w' Group = Running \<and> ch_buf (chan_of Group w') = []
         \<and> sends_of (events w') = attempts demo_env ''metrics'' demo_batch)
   \<and> worker_select demo_env Offset CaseMetrics demo_stopping
       = worker_select demo_env Offset CaseStop demo_stopping"
proof -
  have r: "workers demo_stopping Group = Running" "workers demo_stopping Offset = Running"
    by (simp_all add: demo_stopping_def demo_buffered_def model_defs)
  have b: "ch_buf (chan_of Group demo_stopping) = demo_batch # []"
    "ch_buf (chan_of Offset demo_stopping) = []"
    by (simp_all add: demo_stopping_def demo_buffered_def model_defs)
  have e: "sends_of (events demo_stopping) = []" "topic demo_stopping = ''metrics''"
    by (simp_all add: demo_stopping_def demo_buffered_def model_defs)
  note g = stop_case_may_abandon_buffer [OF demo_stopping_closing r(1), of demo_env]
  note o = stop_case_may_abandon_buffer [OF demo_stopping_closing r(2), of demo_env]
  from g obtain w1 where w1: "worker_select demo_env Group CaseStop demo_stopping = Ok w1"
    "workers w1 Group = Exited" "chan_of Group w1 = chan_of Group demo_stopping"
    "sends_of (events w1) = sends_of (events demo_stopping)"
    by blast
  from g b(1) obtain w2 where w2: "worker_select demo_env Group CaseMetrics demo_stopping = Ok w2"
    "workers w2 Group = Running" "ch_buf (chan_of Group w2) = []"
    "sends_of (events w2)
       = sends_of (events demo_stopping) @ attempts demo_env (topic demo_stopping) demo_batch"
    by blast
  from o b(2) have w3: "worker_select demo_env Offset CaseMetrics demo_stopping
       = worker_select demo_env Offset CaseStop demo_stopping"
    by blast
  have c1: "\<exists>w'. worker_select demo_env Group CaseStop demo_stopping = Ok w'
         \<and> workers w' Group = Exited \<and> ch_buf (chan_of Group w') = [demo_batch]
         \<and> sends_of (events w') = []"
    using w1 b(1) e(1) by simp
  have c2: "\<exists>w'. worker_select demo_env Group CaseMetrics demo_stopping = Ok w'
         \<and> workers w' Group = Running \<and> ch_buf (chan_of Group w') = []
         \<and> sends_of (events w') = attempts demo_env ''metrics'' demo_batch"
    using w2 e by simp
  show ?thesis using demo_stopping_closing r(1) c1 c2 w3 by blast
qed

text \<open>
  C2: \<^verbatim>\<open>Wait\<close> blocks until all workers of the sink have exited. The body of \<^verbatim>\<open>Wait\<close>
  is empty, so it returns at once: here on a sink fresh from \<^verbatim>\<open>NewKafkaSink\<close>, whose
  four workers are running and whose wait group counts 4.
\<close>

theorem Wait_returns_while_workers_run:
  "Wait demo_sink = Ok demo_sink \<and> workers demo_sink Group = Running
     \<and> workers demo_sink Offset = Running \<and> workers demo_sink GroupRate = Running
     \<and> workers demo_sink TopicRate = Running \<and> wg demo_sink = 4"
  by (simp add: Wait_def model_defs)

text \<open>
  C3: one call of \<^verbatim>\<open>Close\<close> on a sink in service, whatever its channels hold and
  whatever the schedule. It never panics. It has not returned exactly as long as a
  worker is still running after \<^verbatim>\<open>close(sink.stopCh)\<close>, so it waits for the workers.
  When it returns, every worker had exited and the wait group was at zero while the four
  metric channels were still open; after that it closed the offset, group, topic-rate
  and group-rate channels, each once and with what they held, then called \<^verbatim>\<open>Close\<close> of
  the producer as the workers left it, whose error it returns; \<open>ks\<close> lists the workers
  in the order they finished, each exactly once. And it does return under every
  schedule that is fair to the workers: there is no deadlock.
\<close>

theorem Close_once_returns:
  assumes "serving w"
  shows "(\<forall>x. Close E sched w \<noteq> Panic x)
    \<and> (fair [] sched w \<longrightarrow> (\<exists>err w'. Close E sched w = Ok (err, w')))
    \<and> ((Close E sched w = Blocked)
         = (\<exists>w1 w2 k. close_stopCh w = Ok w1 \<and> exec E sched w1 = Ok w2
              \<and> workers w2 k = Running))
    \<and> (\<forall>err w'. Close E sched w = Ok (err, w') \<longrightarrow>
         (\<exists>w1 w2 ks. close_stopCh w = Ok w1 \<and> exec E sched w1 = Ok w2
            \<and> (\<forall>k. workers w2 k \<noteq> Running) \<and> wg w2 = 0
            \<and> (\<forall>k. \<not> ch_closed (chan_of k w2))
            \<and> ProducerClose E (producer w2) = (err, producer w')
            \<and> events w' = events w2 @ teardown
            \<and> ch_closed (stopCh w') \<and> wg w' = 0 \<and> (\<forall>k. workers w' k \<noteq> Running)
            \<and> (\<forall>k. ch_closed (chan_of k w')
                     \<and> ch_buf (chan_of k w') = ch_buf (chan_of k w2))
            \<and> lifecycle (events w')
                = lifecycle (events w) @ EvClose SinkStop # map EvDone ks @ teardown
            \<and> distinct ks \<and> set ks = UNIV))"
proof (intro conjI allI impI)
  from Close_serving_cases [OF assms, of E sched] obtain w1 w2 where
    h: "close_stopCh w = Ok w1" "exec E sched w1 = Ok w2"
      "(\<exists>k. workers w2 k = Running) \<longrightarrow> Close E sched w = Blocked"
      "(\<forall>k. workers w2 k \<noteq> Running) \<longrightarrow> (\<exists>err w'. Close E sched w = Ok (err, w'))"
    by blast
  show "Close E sched w \<noteq> Panic x" for x
    using h(3,4) by (cases "\<exists>k. workers w2 k = Running") auto
  show "(Close E sched w = Blocked)
         = (\<exists>w1 w2 k. close_stopCh w = Ok w1 \<and> exec E sched w1 = Ok w2
              \<and> workers w2 k = Running)"
  proof
    assume "Close E sched w = Blocked"
    then have "\<exists>k. workers w2 k = Running" using h(4) by auto
    then show "\<exists>w1 w2 k. close_stopCh w = Ok w1 \<and> exec E sched w1 = Ok w2
              \<and> workers w2 k = Running"
      using h(1,2) by blast
  next
    assume "\<exists>w1 w2 k. close_stopCh w = Ok w1 \<and> exec E sched w1 = Ok w2
              \<and> workers w2 k = Running"
    then have "\<exists>k. workers w2 k = Running" using h(1,2) by auto
    then show "Close E sched w = Blocked" using h(3) by simp
  qed
next
  assume "fair [] sched w"
  then have "\<forall>k. length (ch_buf (chan_of k w)) + sends_to k sched < turns k sched"
    by (simp add: fair_iff)
  from Close_serving [OF assms this, of E]
  show "\<exists>err w'. Close E sched w = Ok (err, w')" by blast
next
  fix err w'
  assume "Close E sched w = Ok (err, w')"
  from Close_serving_returned [OF assms this]
  show "\<exists>w1 w2 ks. close_stopCh w = Ok w1 \<and> exec E sched w1 = Ok w2
            \<and> (\<forall>k. workers w2 k \<noteq> Running) \<and> wg w2 = 0
            \<and> (\<forall>k. \<not> ch_closed (chan_of k w2))
            \<and> ProducerClose E (producer w2) = (err, producer w')
            \<and> events w' = events w2 @ teardown
            \<and> ch_closed (stopCh w') \<and> wg w' = 0 \<and> (\<forall>k. workers w' k \<noteq> Running)
            \<and> (\<forall>k. ch_closed (chan_of k w')
                     \<and> ch_buf (chan_of k w') = ch_buf (chan_of k w2))
            \<and> lifecycle (events w')
                = lifecycle (events w) @ EvClose SinkStop # map EvDone ks @ teardown
            \<and> distinct ks \<and> set ks = UNIV" .
qed

theorem Close_once_returns_witness:
  "serving demo_buffered \<and> fair [] (Select Group CaseMetrics # all_stop) demo_buffered
   \<and> (\<exists>err w' ks. Close demo_env (Select Group CaseMetrics # all_stop) demo_buffered = Ok (err, w')
         \<and> ch_closed (stopCh w') \<and> (\<forall>k. ch_closed (chan_of k w')) \<and> wg w' = 0
         \<and> (\<forall>k. workers w' k \<noteq> Running)
         \<and> lifecycle (events w') = EvClose SinkStop # map EvDone ks @ teardown
         \<and> distinct ks \<and> set ks = UNIV)
   \<and> Close demo_env [Select Group CaseStop] demo_buffered = Blocked"
proof -
  have f: "fair [] (Select Group CaseMetrics # all_stop) demo_buffered"
    by (simp add: fair_def kinds_def all_stop_def demo_buffered_def model_defs)
  have l: "lifecycle (events demo_buffered) = []"
    by (simp add: demo_buffered_def model_defs)
  note t = Close_once_returns [OF demo_buffered_serving, of demo_env]
  from t [of "Select Group CaseMetrics # all_stop"] f obtain err w' where
    c: "Close demo_env (Select Group CaseMetrics # all_stop) demo_buffered = Ok (err, w')"
    by blast
  from t [of "Select Group CaseMetrics # all_stop"] c l have
    "\<exists>ks. ch_closed (stopCh w') \<and> (\<forall>k. ch_closed (chan_of k w')) \<and> wg w' = 0
         \<and> (\<forall>k. workers w' k \<noteq> Running)
         \<and> lifecycle (events w') = EvClose SinkStop # map EvDone ks @ teardown
         \<and> distinct ks \<and> set ks = UNIV"
    by auto
  then have ok: "\<exists>err w' ks.
        Close demo_env (Select Group CaseMetrics # all_stop) demo_buffered = Ok (err, w')
         \<and> ch_closed (stopCh w') \<and> (\<forall>k. ch_closed (chan_of k w')) \<and> wg w' = 0
         \<and> (\<forall>k. workers w' k \<noteq> Running)
         \<and> lifecycle (events w') = EvClose SinkStop # map EvDone ks @ teardown
         \<and> distinct ks \<and> set ks = UNIV"
    using c by blast
  have "\<exists>w1 w2 k. close_stopCh demo_buffered = Ok w1
      \<and> exec demo_env [Select Group CaseStop] w1 = Ok w2 \<and> workers w2 k = Running"
    by (simp add: demo_buffered_def model_defs exI [of _ Offset])
  then have "Close demo_env [Select Group CaseStop] demo_buffered = Blocked"
    using t [of "[Select Group CaseStop]"] by blast
  then show ?thesis using demo_buffered_serving f ok by blast
qed

text \<open>
  C4: a worker that receives a batch exports every record of it, whatever fails on the
  way, and is still running afterwards; the other workers and their channels are
  untouched. Take any record \<open>m\<close> of the batch, with \<open>xs\<close> the records before it and
  \<open>ys\<close> those after it, and let \<open>p1\<close> and \<open>ev1\<close> be the producer and the events when
  the worker reaches \<open>m\<close>. If \<open>m\<close> does not serialise, exactly one error is logged and
  the producer is not called. If it serialises, the producer is called once with it; if
  that call fails, in the state the producer is in, exactly one error is logged after
  it. In every case the worker goes on with \<open>ys\<close> from there. So each record that
  serialises is handed to the producer exactly once, in order, and each failure is
  logged where it happens, each time it happens.
\<close>

theorem export_failure_does_not_stop_worker:
  assumes "workers w k = Running" and "ch_buf (chan_of k w) = batch # rest"
  shows "\<exists>w'. worker_select E k CaseMetrics w = Ok w'
      \<and> workers w' = workers w
      \<and> ch_buf (chan_of k w') = rest
      \<and> (\<forall>j. j \<noteq> k \<longrightarrow> chan_of j w' = chan_of j w)
      \<and> sends_of (events w') = sends_of (events w) @ attempts E (topic w) batch
      \<and> (\<forall>xs m ys p1 ev1.
            batch = xs @ m # ys
            \<and> range_metrics E (topic w) xs (producer w, events w) = (p1, ev1) \<longrightarrow>
            (\<forall>err. Marshal E m = Inl err \<longrightarrow>
               range_metrics E (topic w) (xs @ [m]) (producer w, events w)
                 = (p1, ev1 @ [LogError err]))
            \<and> (\<forall>b err p2. Marshal E m = Inr b
                  \<and> SendMessage E p1 \<lparr>Topic = topic w, Value = b\<rparr> = (Some err, p2) \<longrightarrow>
               range_metrics E (topic w) (xs @ [m]) (producer w, events w)
                 = (p2, ev1 @ [EvSendMessage \<lparr>Topic = topic w, Value = b\<rparr>, LogError err]))
            \<and> (\<forall>b p2. Marshal E m = Inr b
                  \<and> SendMessage E p1 \<lparr>Topic = topic w, Value = b\<rparr> = (None, p2) \<longrightarrow>
               range_metrics E (topic w) (xs @ [m]) (producer w, events w)
                 = (p2, ev1 @ [EvSendMessage \<lparr>Topic = topic w, Value = b\<rparr>]))
            \<and> (producer w', events w')
                = range_metrics E (topic w) ys
                    (range_metrics E (topic w) (xs @ [m]) (producer w, events w)))"
proof -
  define w' where "w' = (set_chan k ((chan_of k w)\<lparr>ch_buf := rest\<rparr>) w)
          \<lparr>producer := fst (range_metrics E (topic w) batch (producer w, events w)),
           events := snd (range_metrics E (topic w) batch (producer w, events w))\<rparr>"
  have s: "worker_select E k CaseMetrics w = Ok w'"
    using select_metrics [OF assms, of CaseMetrics E] by (simp add: w'_def)
  have ev: "events w' = snd (range_metrics E (topic w) batch (producer w, events w))"
    by (simp add: w'_def)
  have pe: "(producer w', events w') = range_metrics E (topic w) batch (producer w, events w)"
    by (simp add: w'_def)
  have a: "workers w' = workers w" "ch_buf (chan_of k w') = rest"
    "\<forall>j. j \<noteq> k \<longrightarrow> chan_of j w' = chan_of j w"
    by (simp_all add: w'_def)
  have b: "sends_of (events w') = sends_of (events w) @ attempts E (topic w) batch"
    unfolding ev by (rule range_metrics_sends)
  have c: "\<forall>xs m ys p1 ev1.
            batch = xs @ m # ys
            \<and> range_metrics E (topic w) xs (producer w, events w) = (p1, ev1) \<longrightarrow>
            (\<forall>err. Marshal E m = Inl err \<longrightarrow>
               range_metrics E (topic w) (xs @ [m]) (producer w, events w)
                 = (p1, ev1 @ [LogError err]))
            \<and> (\<forall>b err p2. Marshal E m = Inr b
                  \<and> SendMessage E p1 \<lparr>Topic = topic w, Value = b\<rparr> = (Some err, p2) \<longrightarrow>
               range_metrics E (topic w) (xs @ [m]) (producer w, events w)
                 = (p2, ev1 @ [EvSendMessage \<lparr>Topic = topic w, Value = b\<rparr>, LogError err]))
            \<and> (\<forall>b p2. Marshal E m = Inr b
                  \<and> SendMessage E p1 \<lparr>Topic = topic w, Value = b\<rparr> = (None, p2) \<longrightarrow>
               range_metrics E (topic w) (xs @ [m]) (producer w, events w)
                 = (p2, ev1 @ [EvSendMessage \<lparr>Topic = topic w, Value = b\<rparr>]))
            \<and> (producer w', events w')
                = range_metrics E (topic w) ys
                    (range_metrics E (topic w) (xs @ [m]) (producer w, events w))"
  proof (intro allI impI)
    fix xs m ys p1 ev1
    assume h: "batch = xs @ m # ys
            \<and> range_metrics E (topic w) xs (producer w, events w) = (p1, ev1)"
    have sn: "range_metrics E (topic w) (xs @ [m]) (producer w, events w)
        = export_metric E (topic w) m (p1, ev1)"
      using h by (simp add: range_metrics_snoc)
    have "batch = (xs @ [m]) @ ys" using h by simp
    then have rest: "(producer w', events w')
                = range_metrics E (topic w) ys
                    (range_metrics E (topic w) (xs @ [m]) (producer w, events w))"
      using pe range_metrics_append [of E "topic w" "xs @ [m]" ys] by simp
    show "(\<forall>err. Marshal E m = Inl err \<longrightarrow>
               range_metrics E (topic w) (xs @ [m]) (producer w, events w)
                 = (p1, ev1 @ [LogError err]))
            \<and> (\<forall>b err p2. Marshal E m = Inr b
                  \<and> SendMessage E p1 \<lparr>Topic = topic w, Value = b\<rparr> = (Some err, p2) \<longrightarrow>
               range_metrics E (topic w) (xs @ [m]) (producer w, events w)
                 = (p2, ev1 @ [EvSendMessage \<lparr>Topic = topic w, Value = b\<rparr>, LogError err]))
            \<and> (\<forall>b p2. Marshal E m = Inr b
                  \<and> SendMessage E p1 \<lparr>Topic = topic w, Value = b\<rparr> = (None, p2) \<longrightarrow>
               range_metrics E (topic w) (xs @ [m]) (producer w, events w)
                 = (p2, ev1 @ [EvSendMessage \<lparr>Topic = topic w, Value = b\<rparr>]))
            \<and> (producer w', events w')
                = range_metrics E (topic w) ys
                    (range_metrics E (topic w) (xs @ [m]) (producer w, events w))"
      unfolding sn using rest [unfolded sn] by (simp add: export_metric_def)
  qed
  show ?thesis using s a b c by blast
qed

theorem export_failure_does_not_stop_worker_witness:
  "workers demo_buffered Group = Running \<and> ch_buf (chan_of Group demo_buffered) = [demo_batch]
   \<and> (\<exists>w'. worker_select flaky_env Group CaseMetrics demo_buffered = Ok w'
         \<and> workers w' Group = Running \<and> ch_buf (chan_of Group w') = []
         \<and> producer w' = 3
         \<and> events w'
             = [EvEnqueue Group demo_batch,
                EvSendMessage \<lparr>Topic = ''metrics'', Value = ''metric''\<rparr>,
                LogError (Failure ''json: unsupported value''),
                EvSendMessage \<lparr>Topic = ''metrics'', Value = ''metric''\<rparr>,
                LogError (Failure ''kafka: send failed''),
                EvSendMessage \<lparr>Topic = ''metrics'', Value = ''metric''\<rparr>])"
proof -
  have r: "workers demo_buffered Group = Running"
    by (simp add: demo_buffered_def model_defs)
  have b: "ch_buf (chan_of Group demo_buffered) = demo_batch # []"
    by (simp add: demo_buffered_def model_defs)
  have t: "topic demo_buffered = ''metrics''" "producer demo_buffered = 0"
    "events demo_buffered = [EvEnqueue Group demo_batch]"
    by (simp_all add: demo_buffered_def model_defs)
  have d: "demo_batch = [1, 0] @ 2 # [3]" by (simp add: demo_batch_def)
  have p: "range_metrics flaky_env (topic demo_buffered) [1, 0]
             (producer demo_buffered, events demo_buffered)
       = (1, [EvEnqueue Group demo_batch,
              EvSendMessage \<lparr>Topic = ''metrics'', Value = ''metric''\<rparr>,
              LogError (Failure ''json: unsupported value'')])"
    by (simp add: t flaky_env_def export_metric_def)
  have m: "Marshal flaky_env 2 = Inr ''metric''"
    "SendMessage flaky_env 1 \<lparr>Topic = topic demo_buffered, Value = ''metric''\<rparr>
       = (Some (Failure ''kafka: send failed''), 2)"
    by (simp_all add: flaky_env_def)
  from export_failure_does_not_stop_worker [OF r b, of flaky_env] obtain w' where
    h: "worker_select flaky_env Group CaseMetrics demo_buffered = Ok w'"
      "workers w' = workers demo_buffered" "ch_buf (chan_of Group w') = []"
      "\<forall>j. j \<noteq> Group \<longrightarrow> chan_of j w' = chan_of j demo_buffered"
      "sends_of (events w')
         = sends_of (events demo_buffered) @ attempts flaky_env (topic demo_buffered) demo_batch"
      "\<forall>xs m ys p1 ev1.
            demo_batch = xs @ m # ys
            \<and> range_metrics flaky_env (topic demo_buffered) xs
                (producer demo_buffered, events demo_buffered) = (p1, ev1) \<longrightarrow>
            (\<forall>err. Marshal flaky_env m = Inl err \<longrightarrow>
               range_metrics flaky_env (topic demo_buffered) (xs @ [m])
                   (producer demo_buffered, events demo_buffered)
                 = (p1, ev1 @ [LogError err]))
            \<and> (\<forall>b err p2. Marshal flaky_env m = Inr b
                  \<and> SendMessage flaky_env p1 \<lparr>Topic = topic demo_buffered, Value = b\<rparr>
                      = (Some err, p2) \<longrightarrow>
               range_metrics flaky_env (topic demo_buffered) (xs @ [m])
                   (producer demo_buffered, events demo_buffered)
                 = (p2, ev1 @ [EvSendMessage \<lparr>Topic = topic demo_buffered, Value = b\<rparr>,
                               LogError err]))
            \<and> (\<forall>b p2. Marshal flaky_env m = Inr b
                  \<and> SendMessage flaky_env p1 \<lparr>Topic = topic demo_buffered, Value = b\<rparr>
                      = (None, p2) \<longrightarrow>
               range_metrics flaky_env (topic demo_buffered) (xs @ [m])
                   (producer demo_buffered, events demo_buffered)
                 = (p2, ev1 @ [EvSendMessage \<lparr>Topic = topic demo_buffered, Value = b\<rparr>]))
            \<and> (producer w', events w')
                = range_metrics flaky_env (topic demo_buffered) ys
                    (range_metrics flaky_env (topic demo_buffered) (xs @ [m])
                       (producer demo_buffered, events demo_buffered))"
    by (elim exE conjE)
  note at2 = h(6) [rule_format, OF conjI [OF d p]]
  have s: "range_metrics flaky_env (topic demo_buffered) ([1, 0] @ [2])
          (producer demo_buffered, events demo_buffered)
        = (2, [EvEnqueue Group demo_batch,
              EvSendMessage \<lparr>Topic = ''metrics'', Value = ''metric''\<rparr>,
              LogError (Failure ''json: unsupported value'')]
             @ [EvSendMessage \<lparr>Topic = topic demo_buffered, Value = ''metric''\<rparr>,
                LogError (Failure ''kafka: send failed'')])"
    using at2 [THEN conjunct2, THEN conjunct1, rule_format, OF conjI [OF m]] .
  have f: "(producer w', events w')
                = range_metrics flaky_env (topic demo_buffered) [3]
                    (range_metrics flaky_env (topic demo_buffered) ([1, 0] @ [2])
                       (producer demo_buffered, events demo_buffered))"
    using at2 [THEN conjunct2, THEN conjunct2, THEN conjunct2] .
  have "(producer w', events w')
      = (3, [EvEnqueue Group demo_batch,
                EvSendMessage \<lparr>Topic = ''metrics'', Value = ''metric''\<rparr>,
                LogError (Failure ''json: unsupported value''),
                EvSendMessage \<lparr>Topic = ''metrics'', Value = ''metric''\<rparr>,
                LogError (Failure ''kafka: send failed''),
                EvSendMessage \<lparr>Topic = ''metrics'', Value = ''metric''\<rparr>])"
    unfolding f s by (simp add: t flaky_env_def export_metric_def)
  then have "producer w' = 3" and "events w'
             = [EvEnqueue Group demo_batch,
                EvSendMessage \<lparr>Topic = ''metrics'', Value = ''metric''\<rparr>,
                LogError (Failure ''json: unsupported value''),
                EvSendMessage \<lparr>Topic = ''metrics'', Value = ''metric''\<rparr>,
                LogError (Failure ''kafka: send failed''),
                EvSendMessage \<lparr>Topic = ''metrics'', Value = ''metric''\<rparr>]"
    by simp_all
  moreover have "workers w' Group = Running" using h(2) r by simp
  ultimately show ?thesis using h(1,3) r b by simp
qed

text \<open>
  C5: the lag of a consumer-group offset sample is the log-end offset minus the
  committed offset, and 0 when the committed offset exceeds the log-end offset; it is
  never negative.
\<close>

theorem lag_clamped:
  "0 \<le> lag (consumer_group_offset_metric g t p ts committed log_end)
   \<and> (committed \<le> log_end \<longrightarrow>
        lag (consumer_group_offset_metric g t p ts committed log_end) = log_end - committed)
   \<and> (log_end < committed \<longrightarrow>
        lag (consumer_group_offset_metric g t p ts committed log_end) = 0)"
  by (simp add: consumer_group_offset_metric_def)

theorem lag_clamped_witness:
  "(80::int) \<le> 100 \<and> lag (consumer_group_offset_metric ''billing'' ''orders'' 0 0 80 100) = 20
   \<and> (100::int) < 105 \<and> lag (consumer_group_offset_metric ''billing'' ''orders'' 0 0 105 100) = 0"
  using lag_clamped [of "''billing''" "''orders''" 0 0 80 100]
    lag_clamped [of "''billing''" "''orders''" 0 0 105 100]
  by simp

text \<open>
  C6, as the specification states it: after a start-up error the process ends with a
  status that is not zero. \<^verbatim>\<open>main\<close> logs the error and returns, and a Go process whose
  \<^verbatim>\<open>main\<close> returns ends with status 0: here for a sink name that is not registered.
\<close>

theorem startup_failure_exits_zero:
  "main demo_env demo_registry ''nosuch'' demo_scenario = Ok [LogError (UnknownSink ''nosuch'')]
     \<and> exit_status (main demo_env demo_registry ''nosuch'' demo_scenario) = Some 0"
  by (simp add: main_defs exit_status_def)

text \<open>
  C6, amended: when the construction of the sink fails, \<^verbatim>\<open>main\<close> logs the error and
  returns, and that is all it does. When the construction of the engine fails,
  \<^verbatim>\<open>main\<close> logs the error and returns through the deferred \<^verbatim>\<open>Close\<close> of the sink; the
  engine is never run. In both cases the process ends with status 0.
\<close>

theorem startup_failure_logs_and_returns:
  "(metrics_New reg name = Inl err \<longrightarrow>
      main E reg name sc = Ok [LogError err] \<and> exit_status (main E reg name sc) = Some 0)
   \<and> (metrics_New reg name = Inr sink \<and> serving sink \<and> new_source sc = Some err
        \<and> fair [] (closing_sched sc) sink \<longrightarrow>
      (\<exists>evs ks. main E reg name sc = Ok evs \<and> exit_status (main E reg name sc) = Some 0
         \<and> LogError err \<in> set evs
         \<and> lifecycle evs = lifecycle (events sink)
             @ [EvNewKafkaSource, EvClose SinkStop] @ map EvDone ks @ teardown))"
proof (intro conjI impI)
  assume "metrics_New reg name = Inl err"
  then show "main E reg name sc = Ok [LogError err]" by (rule main_unknown)
  then show "exit_status (main E reg name sc) = Some 0" by (simp add: exit_status_def)
next
  assume a: "metrics_New reg name = Inr sink \<and> serving sink \<and> new_source sc = Some err
        \<and> fair [] (closing_sched sc) sink"
  from main_source_failure [of reg name sink sc err E] a obtain evs ks where
    h: "main E reg name sc = Ok evs" "LogError err \<in> set evs"
      "lifecycle evs = lifecycle (events sink)
         @ [EvNewKafkaSource, EvClose SinkStop] @ map EvDone ks @ teardown"
    by blast
  have "exit_status (main E reg name sc) = Some 0" using h(1) by (simp add: exit_status_def)
  then show "\<exists>evs ks. main E reg name sc = Ok evs \<and> exit_status (main E reg name sc) = Some 0
         \<and> LogError err \<in> set evs
         \<and> lifecycle evs = lifecycle (events sink)
             @ [EvNewKafkaSource, EvClose SinkStop] @ map EvDone ks @ teardown"
    using h by blast
qed

theorem startup_failure_logs_and_returns_witness:
  "metrics_New demo_registry ''nosuch'' = Inl (UnknownSink ''nosuch'')
   \<and> main demo_env demo_registry ''nosuch'' demo_scenario = Ok [LogError (UnknownSink ''nosuch'')]
   \<and> metrics_New demo_registry ''kafka'' = Inr demo_sink \<and> serving demo_sink
   \<and> new_source (demo_scenario\<lparr>new_source := Some (Failure ''no broker'')\<rparr>)
       = Some (Failure ''no broker'')
   \<and> fair [] (closing_sched (demo_scenario\<lparr>new_source := Some (Failure ''no broker'')\<rparr>)) demo_sink
   \<and> (\<exists>evs. main demo_env demo_registry ''kafka''
              (demo_scenario\<lparr>new_source := Some (Failure ''no broker'')\<rparr>) = Ok evs
         \<and> exit_status (main demo_env demo_registry ''kafka''
              (demo_scenario\<lparr>new_source := Some (Failure ''no broker'')\<rparr>)) = Some 0
         \<and> LogError (Failure ''no broker'') \<in> set evs)"
proof -
  let ?sc = "demo_scenario\<lparr>new_source := Some (Failure ''no broker'')\<rparr>"
  have u: "metrics_New demo_registry ''nosuch'' = Inl (UnknownSink ''nosuch'')"
    by (simp add: metrics_New_def demo_registry_nosuch)
  have m: "main demo_env demo_registry ''nosuch'' demo_scenario
      = Ok [LogError (UnknownSink ''nosuch'')]"
    using startup_failure_logs_and_returns
      [where reg = demo_registry and name = "''nosuch''" and err = "UnknownSink ''nosuch''"
        and E = demo_env and sc = demo_scenario] u
    by blast
  have n: "new_source ?sc = Some (Failure ''no broker'')" by simp
  have f: "fair [] (closing_sched ?sc) demo_sink"
    by (simp add: fair_def kinds_def all_stop_def demo_scenario_def model_defs)
  have a: "metrics_New demo_registry ''kafka'' = Inr demo_sink \<and> serving demo_sink
        \<and> new_source ?sc = Some (Failure ''no broker'') \<and> fair [] (closing_sched ?sc) demo_sink"
    using demo_registry_kafka demo_sink_serving n f by blast
  have "\<exists>evs ks. main demo_env demo_registry ''kafka'' ?sc = Ok evs
         \<and> exit_status (main demo_env demo_registry ''kafka'' ?sc) = Some 0
         \<and> LogError (Failure ''no broker'') \<in> set evs
         \<and> lifecycle evs = lifecycle (events demo_sink)
             @ [EvNewKafkaSource, EvClose SinkStop] @ map EvDone ks @ teardown"
    using startup_failure_logs_and_returns
      [where reg = demo_registry and name = "''kafka''" and err = "Failure ''no broker''"
        and E = demo_env and sc = ?sc and sink = demo_sink] a
    by blast
  then show ?thesis using u m a by blast
qed

text \<open>
  C7: a sink name that is not in the registry makes the construction of the sink fail
  with the unknown-sink error; \<^verbatim>\<open>main\<close> logs it and returns, and that is the whole
  run: the engine is neither constructed nor run.
\<close>

theorem unknown_sink_never_builds_engine:
  assumes "reg name = None"
  shows "metrics_New reg name = Inl (UnknownSink name)
       \<and> main E reg name sc = Ok [LogError (UnknownSink name)]"
proof -
  have m: "metrics_New reg name = Inl (UnknownSink name)"
    using assms by (simp add: metrics_New_def)
  from m main_unknown [OF m] show ?thesis by simp
qed

theorem unknown_sink_never_builds_engine_witness:
  "demo_registry ''nosuch'' = None
   \<and> metrics_New demo_registry ''nosuch'' = Inl (UnknownSink ''nosuch'')
   \<and> main demo_env demo_registry ''nosuch'' demo_scenario = Ok [LogError (UnknownSink ''nosuch'')]"
  using unknown_sink_never_builds_engine
      [where reg = demo_registry and name = "''nosuch''" and E = demo_env and sc = demo_scenario]
    demo_registry_nosuch
  by simp

text \<open>
  C8, as the specification states it: between the end of sampling and the closing of
  the channels the workers of the sink drain what is buffered. In the run below the
  group worker is in \<^verbatim>\<open>SendMessage\<close> for a first batch when the source sends a second
  one, which is therefore buffered; the signal arrives, the source stops and is closed,
  and \<^verbatim>\<open>Close\<close> of the sink closes the stop channel. In its next \<^verbatim>\<open>select\<close> the worker
  can take either case and takes the stop case. The channels and the producer are
  closed, and the producer was called for the first batch only: the second was not
  drained.
\<close>

theorem shutdown_without_drain:
  "main demo_env demo_registry ''kafka'' busy_scenario =
     Ok [EvNewKafkaSource, EvSourceRun, EvEnqueue Group [1],
         EvSendMessage \<lparr>Topic = ''metrics'', Value = ''metric''\<rparr>, EvEnqueue Group [3],
         EvSignal ''interrupt'', EvClose SourceStop,
         LogInfo ''Exiting given signal: interrupt'', EvSourceWait,
         EvSinkWait, EvSourceClose, EvClose SinkStop,
         LogInfo ''Kafka ConsumerGroupOffsetMetrics Stoped'', EvDone Group,
         LogInfo ''Kafka OffsetMetrics Stoped'', EvDone Offset,
         LogInfo ''Kafka GroupRateChan Stoped'', EvDone GroupRate,
         LogInfo ''Kafka TopicRateChan Stoped'', EvDone TopicRate,
         EvClose (Metric Offset), EvClose (Metric Group), EvClose (Metric TopicRate),
         EvClose (Metric GroupRate), EvProducerClose]"
  by (simp add: main_def metrics_New_def demo_registry_def RegisterSink_def NewKafkaSink_def
      busy_scenario_def signal_handler_def deferred_source_Close_def deferred_sink_Close_def
      Wait_def model_defs)

text \<open>
  C8, amended: after the signal the steps of the shutdown come in this order: the stop
  channel of the source is closed; the wait for the source returns, so the engine has
  stopped sampling; the source is closed; the stop channel of the sink is closed; every
  worker of the sink finishes, each once; the offset, group, topic-rate and group-rate
  channels are closed; the producer is closed. Whether a worker receives what its
  channel still holds before it finishes is the choice of its \<^verbatim>\<open>select\<close>. This is the
  order of every run in which \<^verbatim>\<open>main\<close> returns, whatever the schedule; without a
  signal \<^verbatim>\<open>main\<close> does not return, and with a signal and a schedule that is fair to the
  workers it does.
\<close>

theorem shutdown_order:
  assumes "metrics_New reg name = Inr sink" and "serving sink" and "new_source sc = None"
  shows "(signal sc = None \<longrightarrow> main E reg name sc = Blocked)
       \<and> (\<forall>sig. signal sc = Some sig
              \<and> fair (before_signal sc @ last_tick sc) (closing_sched sc) sink \<longrightarrow>
            (\<exists>evs. main E reg name sc = Ok evs))
       \<and> (\<forall>evs. main E reg name sc = Ok evs \<longrightarrow>
            (\<exists>sig ks. signal sc = Some sig
               \<and> lifecycle evs = lifecycle (events sink)
                   @ [EvNewKafkaSource, EvSourceRun, EvSignal sig, EvClose SourceStop,
                      EvSourceWait, EvSourceClose, EvClose SinkStop]
                   @ map EvDone ks @ teardown
               \<and> distinct ks \<and> set ks = UNIV))"
proof (intro conjI allI impI)
  show "main E reg name sc = Blocked" if "signal sc = None"
    using main_returned [OF assms, of E] that by blast
next
  fix sig
  assume "signal sc = Some sig
              \<and> fair (before_signal sc @ last_tick sc) (closing_sched sc) sink"
  then show "\<exists>evs. main E reg name sc = Ok evs"
    using main_shutdown [OF assms, of sig E] by blast
next
  fix evs
  assume "main E reg name sc = Ok evs"
  then show "\<exists>sig ks. signal sc = Some sig
               \<and> lifecycle evs = lifecycle (events sink)
                   @ [EvNewKafkaSource, EvSourceRun, EvSignal sig, EvClose SourceStop,
                      EvSourceWait, EvSourceClose, EvClose SinkStop]
                   @ map EvDone ks @ teardown
               \<and> distinct ks \<and> set ks = UNIV"
    using main_returned [OF assms, of E] by blast
qed

theorem shutdown_order_witness:
  "metrics_New demo_registry ''kafka'' = Inr demo_sink \<and> serving demo_sink
   \<and> new_source busy_scenario = None \<and> signal busy_scenario = Some ''interrupt''
   \<and> main demo_env demo_registry ''kafka'' (busy_scenario\<lparr>signal := None\<rparr>) = Blocked
   \<and> (\<exists>evs ks. main demo_env demo_registry ''kafka'' busy_scenario = Ok evs
         \<and> lifecycle evs =
             [EvNewKafkaSource, EvSourceRun, EvSignal ''interrupt'', EvClose SourceStop,
              EvSourceWait, EvSourceClose, EvClose SinkStop]
             @ map EvDone ks @ teardown
         \<and> distinct ks \<and> set ks = UNIV)
   \<and> fair [Send Group [1]] (Select Group CaseMetrics # all_stop) demo_sink
   \<and> (\<exists>evs. main demo_env demo_registry ''kafka''
           (demo_scenario\<lparr>closing_sched := Select Group CaseMetrics # all_stop\<rparr>) = Ok evs)"
proof -
  have n: "new_source busy_scenario = None" "signal busy_scenario = Some ''interrupt''"
    by (simp_all add: busy_scenario_def)
  have l: "lifecycle (events demo_sink) = []" by (simp add: model_defs)
  note t = shutdown_order [OF demo_registry_kafka demo_sink_serving, of _ demo_env]
  have bl: "main demo_env demo_registry ''kafka'' (busy_scenario\<lparr>signal := None\<rparr>) = Blocked"
    using t [of "busy_scenario\<lparr>signal := None\<rparr>"] by (simp add: busy_scenario_def)
  have "\<exists>evs. main demo_env demo_registry ''kafka'' busy_scenario = Ok evs"
    by (simp add: main_def metrics_New_def demo_registry_def RegisterSink_def NewKafkaSink_def
        busy_scenario_def signal_handler_def deferred_source_Close_def deferred_sink_Close_def
        Wait_def model_defs)
  then obtain evs where m: "main demo_env demo_registry ''kafka'' busy_scenario = Ok evs"
    by blast
  from t [OF n(1)] m n(2) l have
    "\<exists>ks. lifecycle evs =
             [EvNewKafkaSource, EvSourceRun, EvSignal ''interrupt'', EvClose SourceStop,
              EvSourceWait, EvSourceClose, EvClose SinkStop]
             @ map EvDone ks @ teardown
         \<and> distinct ks \<and> set ks = UNIV"
    by auto
  then have ok: "\<exists>evs ks. main demo_env demo_registry ''kafka'' busy_scenario = Ok evs
         \<and> lifecycle evs =
             [EvNewKafkaSource, EvSourceRun, EvSignal ''interrupt'', EvClose SourceStop,
              EvSourceWait, EvSourceClose, EvClose SinkStop]
             @ map EvDone ks @ teardown
         \<and> distinct ks \<and> set ks = UNIV"
    using m by blast
  let ?sc = "demo_scenario\<lparr>closing_sched := Select Group CaseMetrics # all_stop\<rparr>"
  have n2: "new_source ?sc = None" "signal ?sc = Some ''interrupt''"
    by (simp_all add: demo_scenario_def)
  have f0: "fair [Send Group [1]] (Select Group CaseMetrics # all_stop) demo_sink"
    by (simp add: fair_def kinds_def all_stop_def model_defs)
  have s: "before_signal ?sc @ last_tick ?sc = [Send Group [1]]"
    "closing_sched ?sc = Select Group CaseMetrics # all_stop"
    by (simp_all add: demo_scenario_def)
  have f: "fair (before_signal ?sc @ last_tick ?sc) (closing_sched ?sc) demo_sink"
    unfolding s by (rule f0)
  from t [OF n2(1)] n2(2) f
  have fr: "\<exists>evs. main demo_env demo_registry ''kafka'' ?sc = Ok evs" by blast
  show ?thesis using demo_registry_kafka demo_sink_serving n bl ok f0 fr by blast
qed

text \<open>
  C9: \<^verbatim>\<open>NewKafkaSink\<close> makes each of the four metric channels with capacity 1024, and
  the capacity stays: however the sink is used afterwards, no channel holds more than
  1024 batches, a send into a channel that holds 1024 blocks and changes nothing, and a
  send into a channel that holds fewer appends the batch behind those buffered and
  leaves the other channels alone. No batch is dropped.
\<close>

theorem full_channel_blocks_sender:
  assumes "NewKafkaSink tls new_producer tp = Inr w0" and "exec E sched w0 = Ok w"
  shows "ch_cap (chan_of k w) = 1024 \<and> length (ch_buf (chan_of k w)) \<le> 1024
       \<and> (length (ch_buf (chan_of k w)) = 1024 \<longrightarrow> engine_send k b w = Blocked)
       \<and> (length (ch_buf (chan_of k w)) < 1024 \<longrightarrow>
            (\<exists>w'. engine_send k b w = Ok w'
               \<and> ch_buf (chan_of k w') = ch_buf (chan_of k w) @ [b]
               \<and> (\<forall>j. j \<noteq> k \<longrightarrow> chan_of j w' = chan_of j w)))"
proof -
  from assms(1) obtain p where w0: "w0 = new_sink p tp"
    by (auto simp: NewKafkaSink_def split: option.splits sum.splits)
  have sv: "serving w0" unfolding w0 by (rule new_sink_serving)
  from exec_serving [OF sv, of E sched] assms(2) have
    h: "serving w" "\<forall>j. ch_cap (chan_of j w) = ch_cap (chan_of j w0)"
      "\<forall>j. length (ch_buf (chan_of j w))
              \<le> max (length (ch_buf (chan_of j w0))) (ch_cap (chan_of j w0))"
    by auto
  have c: "ch_cap (chan_of k w) = 1024"
    using h(2) [rule_format, of k] by (simp add: w0 new_sink_chans)
  have l: "length (ch_buf (chan_of k w)) \<le> 1024"
    using h(3) [rule_format, of k] by (simp add: w0 new_sink_chans)
  have o: "\<not> ch_closed (chan_of k w)" using h(1) by (simp add: serving_iff)
  show ?thesis using c l send_open [OF o, of b] by simp
qed

theorem full_channel_blocks_sender_witness:
  "NewKafkaSink None (Inr 0) ''metrics'' = Inr demo_sink
   \<and> (\<exists>w. exec demo_env (replicate 1024 (Send Group [1])) demo_sink = Ok w
         \<and> length (ch_buf (chan_of Group w)) = 1024 \<and> engine_send Group [2] w = Blocked)
   \<and> (\<exists>w'. engine_send Group [2] demo_sink = Ok w' \<and> ch_buf (chan_of Group w') = [2] # [])"
proof -
  have n: "NewKafkaSink None (Inr 0) ''metrics'' = Inr demo_sink"
    by (simp add: NewKafkaSink_def demo_sink_def)
  have z: "ch_buf (chan_of Group demo_sink) = []" by (simp add: model_defs)
  have "length (ch_buf (chan_of Group demo_sink)) + 1024 \<le> ch_cap (chan_of Group demo_sink)"
    by (simp add: model_defs)
  from fill_channel [OF demo_sink_serving this, of demo_env "[1]"] obtain w where
    w: "exec demo_env (replicate 1024 (Send Group [1])) demo_sink = Ok w"
      "length (ch_buf (chan_of Group w)) = length (ch_buf (chan_of Group demo_sink)) + 1024"
    by blast
  then have l: "length (ch_buf (chan_of Group w)) = 1024"
    by (simp add: model_defs)
  from full_channel_blocks_sender [OF n w(1), of Group "[2]"] l
  have c1: "engine_send Group [2] w = Blocked" by simp
  have "exec demo_env [] demo_sink = Ok demo_sink" by simp
  from full_channel_blocks_sender [OF n this, of Group "[2]"] z
  have c2: "\<exists>w'. engine_send Group [2] demo_sink = Ok w' \<and> ch_buf (chan_of Group w') = [2] # []"
    by auto
  show ?thesis using n w(1) l c1 c2 by blast
qed

text \<open>
  C10: \<^verbatim>\<open>Close\<close> is not idempotent. After a call of \<^verbatim>\<open>Close\<close> that returned, any
  further call panics, on the close of the stop channel, which is closed already.
\<close>

theorem Close_twice_panics:
  assumes "Close E sched w = Ok (err, w')"
  shows "Close E sched' w' = Panic ''close of closed channel''"
  using Close_closed_panics [OF Close_Ok_stop_closed [OF assms]] .

theorem Close_twice_panics_witness:
  "Close demo_env all_stop demo_buffered = Ok (None, demo_abandoned)
   \<and> Close demo_env all_stop demo_abandoned = Panic ''close of closed channel''"
proof -
  have c: "Close demo_env all_stop demo_buffered = Ok (None, demo_abandoned)"
    by (simp add: model_defs demo_buffered_def demo_abandoned_def fun_eq_iff kind_all)
  from Close_twice_panics [OF c, of all_stop] c show ?thesis by simp
qed

end
